theory Spec2Isabelle
  imports Main
begin

section \<open>Python strings\<close>

text \<open>
  A Python \<open>str\<close> is modelled as a \<open>string\<close>, one \<open>char\<close> per code point; the
  model covers the code points below 256. \<open>is_space\<close> is \<open>str.isspace\<close> on that range,
  the set that \<open>strip\<close>, \<open>lstrip\<close> and \<open>rstrip\<close> remove when called without argument.
\<close>

abbreviation NL :: char where
  "NL \<equiv> CHR 0x0A"

definition is_space :: "char \<Rightarrow> bool" where
  "is_space c = (c \<in> set [CHR 0x09, CHR 0x0A, CHR 0x0B, CHR 0x0C, CHR 0x0D,
                            CHR 0x1C, CHR 0x1D, CHR 0x1E, CHR 0x1F, CHR 0x20,
                            CHR 0x85, CHR 0xA0])"

definition lstrip :: "string \<Rightarrow> string" where
  "lstrip s = dropWhile is_space s"

definition rstrip :: "string \<Rightarrow> string" where
  "rstrip s = rev (dropWhile is_space (rev s))"

definition strip :: "string \<Rightarrow> string" where
  "strip s = rstrip (lstrip s)"

definition startswith :: "string \<Rightarrow> string \<Rightarrow> bool" where
  "startswith s p = (take (length p) s = p)"

definition endswith :: "string \<Rightarrow> string \<Rightarrow> bool" where
  "endswith s p = (length p \<le> length s \<and> drop (length s - length p) s = p)"

text \<open>\<open>s.startswith((p1, p2, ...))\<close> and \<open>s.endswith((p1, p2, ...))\<close> with a tuple.\<close>

definition startswith_any :: "string \<Rightarrow> string list \<Rightarrow> bool" where
  "startswith_any s ps = list_ex (startswith s) ps"

definition endswith_any :: "string \<Rightarrow> string list \<Rightarrow> bool" where
  "endswith_any s ps = list_ex (endswith s) ps"

text \<open>\<open>s.split(d)\<close> at a character \<open>d\<close>: never empty, one more piece than there are \<open>d\<close>s.\<close>

fun split_on :: "char \<Rightarrow> string \<Rightarrow> string list" where
  "split_on d [] = [[]]"
| "split_on d (c # cs) =
     (if c = d then [] # split_on d cs
      else (case split_on d cs of [] \<Rightarrow> [[c]] | l # ls \<Rightarrow> (c # l) # ls))"

abbreviation split_nl :: "string \<Rightarrow> string list" where
  "split_nl \<equiv> split_on NL"

text \<open>Truth value of an optional string: \<open>None\<close> and \<open>''\<close> are false.\<close>

fun truthy :: "string option \<Rightarrow> bool" where
  "truthy None = False"
| "truthy (Some s) = (s \<noteq> [])"

text \<open>
  \<open>str.lower\<close> on the code points below 256: the letters A-Z and the Latin-1 capitals
  0xC0-0xDE (without the sign 0xD7) have their small letter 32 further on. Matching under
  \<open>re.IGNORECASE\<close> compares the lower-cased characters on that range.
\<close>

definition lower_chr :: "char \<Rightarrow> char" where
  "lower_chr c =
     (let n = (of_char c :: nat) in
      if (65 \<le> n \<and> n \<le> 90) \<or> (192 \<le> n \<and> n \<le> 222 \<and> n \<noteq> 215)
      then char_of (n + 32) else c)"

definition lower :: "string \<Rightarrow> string" where
  "lower s = map lower_chr s"

text \<open>\<open>'\n'.join(lines)\<close>.\<close>

fun join_nl :: "string list \<Rightarrow> string" where
  "join_nl [] = []"
| "join_nl [l] = l"
| "join_nl (l # m # ls) = l @ NL # join_nl (m # ls)"

text \<open>\<open>' ' * n\<close>: the empty string when \<open>n\<close> is not positive.\<close>

definition spaces :: "int \<Rightarrow> string" where
  "spaces n = replicate (nat n) (CHR '' '')"

section \<open>formatters.py: the line re-levellers\<close>

text \<open>
  Every formatter returns the Python pair \<open>(formatted, error)\<close>; \<open>None\<close> is \<open>None\<close>.
  The bodies of \<open>format_python\<close> and \<open>format_javascript\<close> call only string methods that
  cannot raise, so their \<open>except\<close> branch has no counterpart in the model. The last
  branch of the loop of \<open>format_javascript\<close>, for a statement that ends in \<open>;\<close>, is a
  \<open>pass\<close> and changes nothing.
\<close>

type_synonym fmt_result = "string option \<times> string option"

record lines_state =
  formatted_lines :: "string list"
  indent_level :: int

definition python_line :: "lines_state \<Rightarrow> string \<Rightarrow> lines_state" where
  "python_line st line =
     (let stripped = lstrip line in
      if stripped = [] then st\<lparr>formatted_lines := formatted_lines st @ [[]]\<rparr>
      else
        let lvl = (if startswith_any stripped
                        [''elif '', ''else:'', ''except'', ''finally:'', ''except '']
                   then max 0 (indent_level st - 1) else indent_level st);
            formatted_line = spaces (lvl * 4) @ stripped
        in \<lparr>formatted_lines = formatted_lines st @ [formatted_line],
            indent_level =
              (if endswith stripped '':'' then lvl + 1
               else if startswith_any stripped
                         [''return '', ''break'', ''continue'', ''pass'', ''raise '']
               then max 0 (lvl - 1) else lvl)\<rparr>)"

definition format_python :: "string \<Rightarrow> fmt_result" where
  "format_python content =
     (if strip content = [] then (None, Some ''No content to format'')
      else
        let st = foldl python_line \<lparr>formatted_lines = [], indent_level = 0\<rparr>
                   (split_nl content)
        in (Some (join_nl (formatted_lines st)), None))"

definition javascript_line :: "lines_state \<Rightarrow> string \<Rightarrow> lines_state" where
  "javascript_line st line =
     (let stripped = lstrip line in
      if stripped = [] then st\<lparr>formatted_lines := formatted_lines st @ [[]]\<rparr>
      else
        let lvl = (if startswith_any stripped [''}'', '']'']
                   then max 0 (indent_level st - 1) else indent_level st);
            formatted_line = spaces (lvl * 2) @ stripped
        in \<lparr>formatted_lines = formatted_lines st @ [formatted_line],
            indent_level =
              (if endswith_any stripped [''{'', ''[''] then lvl + 1 else lvl)\<rparr>)"

definition format_javascript :: "string \<Rightarrow> fmt_result" where
  "format_javascript content =
     (if strip content = [] then (None, Some ''No content to format'')
      else
        let st = foldl javascript_line \<lparr>formatted_lines = [], indent_level = 0\<rparr>
                   (split_nl content)
        in (Some (join_nl (formatted_lines st)), None))"

subsection \<open>The specification of the re-levellers\<close>

text \<open>
  The re-leveller as the specification words it, line by line: a blank line (nothing left
  after the left trim) gives an empty line and keeps the level; any other line first lowers
  the level when \<open>dedent\<close> holds of the left-trimmed line, is emitted, left-trimmed,
  behind \<open>unit\<close> spaces per level, and then hands the level that \<open>after\<close> gives for the
  left-trimmed line to the next line.
\<close>

fun relevel ::
  "int \<Rightarrow> (string \<Rightarrow> bool) \<Rightarrow> (string \<Rightarrow> int \<Rightarrow> int) \<Rightarrow> int \<Rightarrow> string list \<Rightarrow> string list"
where
  "relevel unit dedent after lvl [] = []"
| "relevel unit dedent after lvl (line # rest) =
     (if lstrip line = [] then [] # relevel unit dedent after lvl rest
      else
        (spaces ((if dedent (lstrip line) then max 0 (lvl - 1) else lvl) * unit) @ lstrip line)
        # relevel unit dedent after
            (after (lstrip line) (if dedent (lstrip line) then max 0 (lvl - 1) else lvl)) rest)"

definition py_dedent :: "string \<Rightarrow> bool" where
  "py_dedent t =
     (startswith t ''elif '' \<or> startswith t ''else:'' \<or> startswith t ''except'' \<or>
      startswith t ''except '' \<or> startswith t ''finally:'')"

definition py_after :: "string \<Rightarrow> int \<Rightarrow> int" where
  "py_after t lvl =
     (if endswith t '':'' then lvl + 1
      else if startswith t ''return '' \<or> startswith t ''break'' \<or> startswith t ''continue'' \<or>
              startswith t ''pass'' \<or> startswith t ''raise ''
      then max 0 (lvl - 1) else lvl)"

definition js_dedent :: "string \<Rightarrow> bool" where
  "js_dedent t = (startswith t ''}'' \<or> startswith t '']'')"

definition js_after :: "string \<Rightarrow> int \<Rightarrow> int" where
  "js_after t lvl = (if endswith t ''{'' \<or> endswith t ''['' then lvl + 1 else lvl)"

section \<open>formatters.py: the CSS formatter\<close>

record css_state =
  css_formatted :: string
  css_level :: int
  in_rule :: bool

definition css_char :: "css_state \<Rightarrow> char \<Rightarrow> css_state" where
  "css_char st char =
     (if char = CHR ''{'' then
        \<lparr>css_formatted = css_formatted st @ '' {\<newline>'' @ spaces ((css_level st + 1) * 2),
         css_level = css_level st + 1, in_rule = True\<rparr>
      else if char = CHR ''}'' then
        \<lparr>css_formatted = css_formatted st @ ''\<newline>'' @ spaces (max 0 (css_level st - 1) * 2) @ ''}'',
         css_level = max 0 (css_level st - 1), in_rule = False\<rparr>
      else if char = CHR '';'' then
        st\<lparr>css_formatted := css_formatted st @ '';\<newline>'' @
                            (if in_rule st then spaces (css_level st * 2) else [])\<rparr>
      else if char = NL then
        (if css_formatted st \<noteq> [] \<and> last (css_formatted st) \<noteq> NL
         then st\<lparr>css_formatted := css_formatted st @ '' ''\<rparr> else st)
      else st\<lparr>css_formatted := css_formatted st @ [char]\<rparr>)"

text \<open>The clean-up loop: \<open>cleaned_lines\<close> is the accumulator.\<close>

definition css_clean :: "string list \<Rightarrow> string \<Rightarrow> string list" where
  "css_clean cleaned_lines line =
     (let cleaned = rstrip line in
      if cleaned \<noteq> [] \<or> (cleaned_lines \<noteq> [] \<and> strip (last cleaned_lines) \<noteq> [])
      then cleaned_lines @ [cleaned] else cleaned_lines)"

definition format_css :: "string \<Rightarrow> fmt_result" where
  "format_css content =
     (if strip content = [] then (None, Some ''No content to format'')
      else
        let st = foldl css_char \<lparr>css_formatted = [], css_level = 0, in_rule = False\<rparr> content;
            cleaned_lines = foldl css_clean [] (split_nl (css_formatted st))
        in (Some (join_nl cleaned_lines), None))"

section \<open>formatters.py: the XML and JSON formatters\<close>

text \<open>
  \<open>xml.dom.minidom\<close> and \<open>json\<close> belong to the Python standard library, not to this
  program; they are parameters of the model. \<open>minidom content\<close> stands for
  \<open>xml.dom.minidom.parseString(content).toprettyxml(indent="  ")\<close>: \<open>Inr\<close> the text it
  returns, \<open>Inl\<close> the \<open>str(e)\<close> of the exception it raises. \<open>json_loads\<close> and
  \<open>json_dumps\<close> stand for \<open>json.loads\<close> and
  \<open>json.dumps(data, indent=2, ensure_ascii=False, sort_keys=False)\<close> in the same way.
\<close>

record xml_state =
  result_lines :: "string list"
  prev_line :: "string option"
  prev_indent :: int

text \<open>One round of the loop over \<open>enumerate(cleaned_lines)\<close>; \<open>n\<close> is \<open>len(cleaned_lines)\<close>.\<close>

definition xml_line :: "int \<Rightarrow> xml_state \<Rightarrow> int \<times> string \<Rightarrow> xml_state" where
  "xml_line n st il =
     (let i = fst il; line = snd il in
      if startswith line ''<?xml'' then
        st\<lparr>result_lines := result_lines st @ [line] @ (if i < n - 1 then [[]] else [])\<rparr>
      else
        let indent = int (length line) - int (length (lstrip line));
            stripped = strip line;
            is_closing = startswith stripped ''</'';
            is_opening = (startswith stripped ''<'' \<and> \<not> is_closing
                          \<and> \<not> startswith stripped ''<!--'');
            is_comment = startswith stripped ''<!--'';
            blank =
              (case prev_line st of
                 None \<Rightarrow> False
               | Some prev \<Rightarrow>
                   prev \<noteq> [] \<and> \<not> is_comment \<and> is_opening \<and>
                   (if startswith (strip prev) ''</'' then indent \<le> prev_indent st
                    else if startswith (strip prev) ''<''
                            \<and> \<not> startswith (strip prev) ''<!--''
                    then indent = prev_indent st \<and> indent > 0
                    else False))
        in \<lparr>result_lines = result_lines st @ (if blank then [[]] else []) @ [line],
            prev_line = Some line, prev_indent = indent\<rparr>)"

definition xml_spacing :: "string list \<Rightarrow> string list" where
  "xml_spacing cleaned_lines =
     result_lines
       (foldl (xml_line (int (length cleaned_lines)))
          \<lparr>result_lines = [], prev_line = None, prev_indent = - 1\<rparr>
          (zip (map int [0..<length cleaned_lines]) cleaned_lines))"

definition xml_cleaned_lines :: "string \<Rightarrow> string list" where
  "xml_cleaned_lines formatted = filter (\<lambda>l. l \<noteq> []) (map rstrip (split_nl formatted))"

definition format_xml :: "(string \<Rightarrow> string + string) \<Rightarrow> string \<Rightarrow> fmt_result" where
  "format_xml minidom content =
     (if strip content = [] then (None, Some ''No content to format'')
      else
        case minidom content of
          Inl e \<Rightarrow> (None, Some e)
        | Inr pretty \<Rightarrow>
            let formatted = join_nl (xml_spacing (xml_cleaned_lines pretty)) in
            if startswith (strip content) ''<?xml'' then
              let original_decl = hd (split_nl (strip content)) in
              if startswith formatted ''<?xml''
              then (Some (join_nl ((split_nl formatted)[0 := original_decl])), None)
              else (Some formatted, None)
            else (Some formatted, None))"

definition format_json ::
  "(string \<Rightarrow> string + 'j) \<Rightarrow> ('j \<Rightarrow> string + string) \<Rightarrow> string \<Rightarrow> fmt_result"
where
  "format_json json_loads json_dumps content =
     (if strip content = [] then (None, Some ''No content to format'')
      else
        case json_loads content of
          Inl e \<Rightarrow> (None, Some e)
        | Inr data \<Rightarrow>
            (case json_dumps data of
               Inl e \<Rightarrow> (None, Some e)
             | Inr formatted \<Rightarrow> (Some formatted, None)))"

subsection \<open>The specification of the secondary pass\<close>

text \<open>
  The line kinds and the blank-line rule of the pass, worded as the specification does:
  a blank line goes before an opening tag when the line before it is a closing tag that is
  indented at least as much, or an opening tag at the same depth that is not depth 0.
\<close>

definition line_indent :: "string \<Rightarrow> int" where
  "line_indent l = int (length l) - int (length (lstrip l))"

definition closing_tag :: "string \<Rightarrow> bool" where
  "closing_tag l = startswith (strip l) ''</''"

definition comment_line :: "string \<Rightarrow> bool" where
  "comment_line l = startswith (strip l) ''<!--''"

definition opening_tag :: "string \<Rightarrow> bool" where
  "opening_tag l = (startswith (strip l) ''<'' \<and> \<not> closing_tag l \<and> \<not> comment_line l)"

definition declaration_line :: "string \<Rightarrow> bool" where
  "declaration_line l = startswith l ''<?xml''"

definition blank_before :: "string \<Rightarrow> string \<Rightarrow> bool" where
  "blank_before prev l =
     (opening_tag l \<and>
      ((closing_tag prev \<and> line_indent l \<le> line_indent prev) \<or>
       (opening_tag prev \<and> line_indent l = line_indent prev \<and> 0 < line_indent l)))"

text \<open>\<open>prev\<close> is the last line seen that is not a declaration line, if there is one.\<close>

fun spaced :: "string option \<Rightarrow> string list \<Rightarrow> string list" where
  "spaced prev [] = []"
| "spaced prev (l # ls) =
     (if declaration_line l then l # (if ls = [] then [] else [[]]) @ spaced prev ls
      else
        (case prev of
           None \<Rightarrow> [l]
         | Some p \<Rightarrow> if blank_before p l then [[], l] else [l])
        @ spaced (Some l) ls)"

text \<open>
  What the loop of the pass keeps true of its state: \<open>prev_indent\<close> is the indentation of
  \<open>prev_line\<close>, and \<open>prev_line\<close>, once set, is not empty.
\<close>

definition xml_inv :: "xml_state \<Rightarrow> bool" where
  "xml_inv st =
     (case prev_line st of None \<Rightarrow> True | Some p \<Rightarrow> p \<noteq> [] \<and> prev_indent st = line_indent p)"

text \<open>Exactly one member of a result pair is not \<open>None\<close>.\<close>

definition exactly_one :: "fmt_result \<Rightarrow> bool" where
  "exactly_one r = ((fst r = None) \<noteq> (snd r = None))"

text \<open>
  Two values of \<open>xml.dom.minidom\<close>, for the example of formatting twice: the text that
  \<open>parseString(content).toprettyxml(indent="  ")\<close> returns for the document
  \<open><?xml version="1.0"?><a/>\<close>, and the message of the \<open>ExpatError\<close> that
  \<open>parseString\<close> raises for a text with a second root element on its third line, which
  is what every other argument stands for here.
\<close>

definition minidom_example :: "string \<Rightarrow> string + string" where
  "minidom_example content =
     (if content = ''<?xml version=\"1.0\"?><a/>''
      then Inr ''<?xml version=\"1.0\" ?>\<newline><a/>\<newline>''
      else Inl ''junk after document element: line 3, column 0'')"

section \<open>utils.py: language detection\<close>

text \<open>
  \<open>Path(filename).suffix\<close> of \<open>pathlib\<close>, for paths with \<open>/\<close> as the separator: the name
  is the last component that is neither empty nor \<open>.\<close>, and the suffix starts at the last
  dot of the name unless that dot is the first or the last character.
\<close>

definition path_name :: "string \<Rightarrow> string" where
  "path_name filename =
     (case rev (filter (\<lambda>p. p \<noteq> [] \<and> p \<noteq> ''.'') (split_on (CHR ''/'') filename)) of
        [] \<Rightarrow> []
      | name # _ \<Rightarrow> name)"

text \<open>\<open>name.rfind('.')\<close>: the last index of the dot, \<open>-1\<close> when there is none.\<close>

definition rfind :: "string \<Rightarrow> char \<Rightarrow> int" where
  "rfind name c =
     (if c \<in> set name
      then int (length name) - 1 - int (length (takeWhile (\<lambda>x. x \<noteq> c) (rev name)))
      else - 1)"

definition path_suffix :: "string \<Rightarrow> string" where
  "path_suffix filename =
     (let name = path_name filename; i = rfind name (CHR ''.'') in
      if 0 < i \<and> i < int (length name) - 1 then drop (nat i) name else [])"

definition language_map :: "(string \<times> string) list" where
  "language_map =
     [(''.xml'', ''xml''), (''.html'', ''html''), (''.htm'', ''html''), (''.json'', ''json''),
      (''.py'', ''python''), (''.css'', ''css''), (''.js'', ''javascript''),
      (''.jsx'', ''javascript'')]"

definition detect_language :: "string \<Rightarrow> string" where
  "detect_language filename =
     (if filename = [] then ''generic''
      else
        let ext = lower (path_suffix filename) in
        case map_of language_map ext of None \<Rightarrow> ''generic'' | Some language \<Rightarrow> language)"

subsection \<open>The regular expressions of the content check\<close>

text \<open>
  The five patterns of \<open>detect_file_type_from_content\<close> are sequences of single
  characters and of greedy repetitions of one character class. \<open>match_rests r s\<close> lists
  what a match of \<open>r\<close> at the start of \<open>s\<close> can leave over, in the order in which the
  backtracking matcher of \<open>re\<close> tries them (a repetition takes as much as it can first).
\<close>

datatype rx =
  One "char \<Rightarrow> bool"
| Many0 "char \<Rightarrow> bool"
| Many1 "char \<Rightarrow> bool"

fun many_rests :: "(char \<Rightarrow> bool) \<Rightarrow> string \<Rightarrow> string list" where
  "many_rests P [] = [[]]"
| "many_rests P (c # cs) = (if P c then many_rests P cs @ [c # cs] else [c # cs])"

fun rx_rests :: "rx \<Rightarrow> string \<Rightarrow> string list" where
  "rx_rests (One P) [] = []"
| "rx_rests (One P) (c # cs) = (if P c then [cs] else [])"
| "rx_rests (Many0 P) s = many_rests P s"
| "rx_rests (Many1 P) [] = []"
| "rx_rests (Many1 P) (c # cs) = (if P c then many_rests P cs else [])"

fun match_rests :: "rx list \<Rightarrow> string \<Rightarrow> string list" where
  "match_rests [] s = [s]"
| "match_rests (r # rs) s = concat (map (match_rests rs) (rx_rests r s))"

text \<open>\<open>re.search(r, s)\<close> is not \<open>None\<close>.\<close>

fun re_search :: "rx list \<Rightarrow> string \<Rightarrow> bool" where
  "re_search r [] = (match_rests r [] \<noteq> [])"
| "re_search r (c # cs) = (match_rests r (c # cs) \<noteq> [] \<or> re_search r cs)"

text \<open>
  \<open>len(re.findall(r, s))\<close>: the matches are taken from left to right and do not overlap;
  after an empty match the scan moves on by one character.
\<close>

fun re_count :: "rx list \<Rightarrow> string \<Rightarrow> nat" where
  "re_count r [] = (if match_rests r [] \<noteq> [] then 1 else 0)"
| "re_count r (c # cs) =
     (case match_rests r (c # cs) of
        [] \<Rightarrow> re_count r cs
      | rest # _ \<Rightarrow> Suc (re_count r (drop (length cs - length rest) cs)))"

text \<open>
  \<open>\w\<close> on the code points below 256: letters, digits, the underscore, and the Latin-1
  characters that \<open>str.isalnum\<close> accepts. \<open>\s\<close> is \<open>is_space\<close>.
\<close>

definition is_word :: "char \<Rightarrow> bool" where
  "is_word c =
     (let n = (of_char c :: nat) in
      (48 \<le> n \<and> n \<le> 57) \<or> (65 \<le> n \<and> n \<le> 90) \<or> n = 95 \<or> (97 \<le> n \<and> n \<le> 122) \<or>
      n = 170 \<or> n = 178 \<or> n = 179 \<or> n = 181 \<or> n = 185 \<or> n = 186 \<or>
      (188 \<le> n \<and> n \<le> 190) \<or> (192 \<le> n \<and> n \<le> 214) \<or> (216 \<le> n \<and> n \<le> 246) \<or> 248 \<le> n)"

abbreviation chr :: "char \<Rightarrow> rx" where
  "chr c \<equiv> One (\<lambda>x. x = c)"

definition rx_tag :: "rx list" where \<comment> \<open>\<open><[^>]+>\<close>\<close>
  "rx_tag = [chr (CHR ''<''), Many1 (\<lambda>x. x \<noteq> CHR ''>''), chr (CHR ''>'')]"

definition rx_closing :: "rx list" where \<comment> \<open>\<open></\w+>\<close>\<close>
  "rx_closing = [chr (CHR ''<''), chr (CHR ''/''), Many1 is_word, chr (CHR ''>'')]"

definition rx_self_closing :: "rx list" where \<comment> \<open>\<open><\w+[^>]*/>\<close>\<close>
  "rx_self_closing =
     [chr (CHR ''<''), Many1 is_word, Many0 (\<lambda>x. x \<noteq> CHR ''>''), chr (CHR ''/''),
      chr (CHR ''>'')]"

definition rx_key :: "rx list" where \<comment> \<open>\<open>"[^"]+"\s*:\<close>\<close>
  "rx_key =
     [chr (CHR 0x22), Many1 (\<lambda>x. x \<noteq> CHR 0x22), chr (CHR 0x22), Many0 is_space,
      chr (CHR '':'')]"

definition rx_value :: "rx list" where \<comment> \<open>\<open>:\s*"[^"]+"\<close>\<close>
  "rx_value =
     [chr (CHR '':''), Many0 is_space, chr (CHR 0x22), Many1 (\<lambda>x. x \<noteq> CHR 0x22),
      chr (CHR 0x22)]"

text \<open>The part of \<open>detect_file_type_from_content\<close> below the comment "Check for JSON".\<close>

definition detect_json :: "(string \<Rightarrow> string + 'j) \<Rightarrow> string \<Rightarrow> string option" where
  "detect_json json_loads content =
     (let content_stripped = strip content in
      if startswith content_stripped ''{'' \<or> startswith content_stripped ''['' then
        (case json_loads content of
           Inr data \<Rightarrow> Some ''json''
         | Inl e \<Rightarrow>
             if (startswith content_stripped ''{'' \<and> CHR ''}'' \<in> set content) \<or>
                (startswith content_stripped ''['' \<and> CHR '']'' \<in> set content)
             then
               (if re_search rx_key content \<and> re_search rx_value content
                then Some ''json'' else None)
             else None)
      else None)"

definition detect_file_type_from_content ::
  "(string \<Rightarrow> string + 'j) \<Rightarrow> string \<Rightarrow> string option"
where
  "detect_file_type_from_content json_loads content =
     (if content = [] \<or> strip content = [] then None
      else
        let content_stripped = strip content in
        if startswith content_stripped ''<?xml'' then Some ''xml''
        else if re_search rx_tag content then
          (let tag_count = re_count rx_tag content in
           if 2 \<le> tag_count then
             (if re_search rx_closing content \<or> re_search rx_self_closing content
              then Some ''xml''
              else if 3 \<le> tag_count then Some ''xml''
              else detect_json json_loads content)
           else detect_json json_loads content)
        else detect_json json_loads content)"

section \<open>text\_editor.py: auto\_format\<close>

text \<open>
  What \<open>auto_format\<close> shows: the warning box, the status-bar line
  \<open>f"{language.upper()} formatted successfully"\<close> (with the language), the information box
  "Could not auto-detect file format", and the error box with the language and the error.
\<close>

datatype message =
  No_content_warning
| Formatted_successfully string
| Could_not_auto_detect
| Could_not_format string string

record editor =
  plain_text :: string
  current_file :: "string option"
  shown :: "message list"

definition auto_format ::
  "(string \<Rightarrow> string + string) \<Rightarrow> (string \<Rightarrow> string + 'j) \<Rightarrow> ('j \<Rightarrow> string + string) \<Rightarrow>
   editor \<Rightarrow> editor"
where
  "auto_format minidom json_loads json_dumps ed =
     (let content = plain_text ed in
      if strip content = [] then ed\<lparr>shown := shown ed @ [No_content_warning]\<rparr>
      else
        let language0 = (if truthy (current_file ed)
                         then Some (detect_language (the (current_file ed))) else None);
            language = (if \<not> truthy language0
                        then (let detected = detect_file_type_from_content json_loads content
                              in if truthy detected then detected else language0)
                        else language0);
            finish = (\<lambda>lang res.
                       if truthy (fst res)
                       then ed\<lparr>plain_text := the (fst res),
                               shown := shown ed @ [Formatted_successfully lang]\<rparr>
                       else if truthy (snd res)
                       then ed\<lparr>shown := shown ed @ [Could_not_format lang (the (snd res))]\<rparr>
                       else ed)
        in
        if language = Some ''xml'' \<or> language = Some ''html''
        then finish (the language) (format_xml minidom content)
        else if language = Some ''json''
        then finish ''json'' (format_json json_loads json_dumps content)
        else if language = Some ''python'' then finish ''python'' (format_python content)
        else if language = Some ''css'' then finish ''css'' (format_css content)
        else if language = Some ''javascript''
        then finish ''javascript'' (format_javascript content)
        else if CHR ''<'' \<in> set content \<and> CHR ''>'' \<in> set content
                \<and> truthy (fst (format_xml minidom content))
        then ed\<lparr>plain_text := the (fst (format_xml minidom content)),
                shown := shown ed @ [Formatted_successfully ''xml'']\<rparr>
        else if (CHR ''{'' \<in> set content \<or> CHR ''['' \<in> set content)
                \<and> truthy (fst (format_json json_loads json_dumps content))
        then ed\<lparr>plain_text := the (fst (format_json json_loads json_dumps content)),
                shown := shown ed @ [Formatted_successfully ''json'']\<rparr>
        else ed\<lparr>shown := shown ed @ [Could_not_auto_detect]\<rparr>)"

section \<open>text\_editor.py: the find bar\<close>

text \<open>
  \<open>re.finditer(re.escape(search_text), content, re.IGNORECASE)\<close>: the start offsets of the
  occurrences of the literal text, letter case ignored, from left to right without
  overlap; \<open>off\<close> is the offset of the text still to scan.
\<close>

definition ci_startswith :: "string \<Rightarrow> string \<Rightarrow> bool" where
  "ci_startswith s p = (lower (take (length p) s) = lower p)"

fun finditer :: "string \<Rightarrow> string \<Rightarrow> nat \<Rightarrow> nat list" where
  "finditer p [] off = (if p = [] then [off] else [])"
| "finditer p (c # cs) off =
     (if ci_startswith (c # cs) p
      then off # finditer p (drop (length p - 1) cs) (off + max 1 (length p))
      else finditer p cs (off + 1))"

text \<open>
  The label of the find bar and the status-bar line, by their texts:
  \<open>"Find:"\<close>, \<open>"Find: (0)"\<close>, \<open>f"{i}/{n}"\<close>; \<open>"Text not found"\<close>,
  \<open>f"Found {i} of {n}"\<close>, \<open>f"Search error: {e}"\<close>.
\<close>

datatype label = Find_prompt | Find_zero | Find_count nat nat

datatype status = No_status | Text_not_found | Found nat nat | Search_error

text \<open>
  The find bar with the parts of the editor it reads and writes: \<open>find_text\<close> is
  \<open>find_edit.text()\<close>, \<open>document\<close> is \<open>text_edit.toPlainText()\<close>, and the text cursor is
  its anchor and its position (equal when nothing is selected).
\<close>

record find_bar =
  find_text :: string
  search_text :: string
  match_positions :: "nat list"
  total_matches :: nat
  current_match_index :: nat
  find_label :: label
  document :: string
  cursor_anchor :: nat
  cursor_position :: nat
  status_bar :: status

definition count_matches :: "find_bar \<Rightarrow> find_bar" where
  "count_matches fb =
     (let content = document fb in
      if content = [] \<or> search_text fb = []
      then fb\<lparr>total_matches := 0, match_positions := [], find_label := Find_prompt\<rparr>
      else
        let positions = finditer (search_text fb) content 0;
            fb1 = fb\<lparr>match_positions := positions, total_matches := length positions\<rparr>
        in if 0 < total_matches fb1
           then fb1\<lparr>current_match_index := 1, find_label := Find_count 1 (total_matches fb1)\<rparr>
           else fb1\<lparr>find_label := Find_zero\<rparr>)"

text \<open>The loop over \<open>enumerate(self.match_positions)\<close> with its \<open>break\<close>; \<open>i\<close> counts.\<close>

fun next_index :: "nat list \<Rightarrow> nat \<Rightarrow> nat \<Rightarrow> nat option" where
  "next_index [] current_pos i = None"
| "next_index (pos # rest) current_pos i =
     (if current_pos < pos then Some i else next_index rest current_pos (Suc i))"

text \<open>
  \<open>QTextCursor.setPosition\<close> leaves the cursor alone when the position lies outside the
  document; \<open>keep\<close> is the mode \<open>KeepAnchor\<close>.
\<close>

definition setPosition :: "nat \<Rightarrow> bool \<Rightarrow> find_bar \<Rightarrow> find_bar" where
  "setPosition pos keep fb =
     (if length (document fb) < pos then fb
      else if keep then fb\<lparr>cursor_position := pos\<rparr>
      else fb\<lparr>cursor_anchor := pos, cursor_position := pos\<rparr>)"

definition find_next :: "find_bar \<Rightarrow> find_bar" where
  "find_next fb =
     (let search = find_text fb in
      if search = [] then fb\<lparr>find_label := Find_prompt\<rparr>
      else
        let fb1 = (if search \<noteq> search_text fb then fb\<lparr>current_match_index := 0\<rparr> else fb);
            fb2 = (if match_positions fb1 = []
                   then count_matches (fb1\<lparr>search_text := search\<rparr>) else fb1)
        in
        if total_matches fb2 = 0
        then fb2\<lparr>find_label := Find_zero, status_bar := Text_not_found\<rparr>
        else
          let current_pos = (if cursor_anchor fb2 \<noteq> cursor_position fb2
                             then min (cursor_anchor fb2) (cursor_position fb2)
                             else cursor_position fb2);
              found = next_index (match_positions fb2) current_pos 0;
              idx = (case found of None \<Rightarrow> 0 | Some i \<Rightarrow> i);
              fb3 = fb2\<lparr>current_match_index := idx + 1\<rparr>
          in
          if length (match_positions fb3) \<le> idx
          then fb3\<lparr>status_bar := Search_error, find_label := Find_prompt\<rparr>
          else
            let match_pos = match_positions fb3 ! idx;
                fb4 = setPosition (match_pos + length search) True
                        (setPosition match_pos False fb3)
            in fb4\<lparr>find_label := Find_count (current_match_index fb4) (total_matches fb4),
                   status_bar := Found (current_match_index fb4) (total_matches fb4)\<rparr>)"

section \<open>syntax\_highlighter.py: highlightBlock\<close>

text \<open>
  \<open>QRegExp\<close> belongs to Qt; a compiled expression is a parameter of the model, the function
  from the text and the offset to the pair of \<open>indexIn(text, offset)\<close> and the
  \<open>matchedLength()\<close> read after it. An index of \<open>-1\<close> says that nothing matched.

  \<open>rule_spans\<close> is the \<open>while\<close> loop of one rule: the \<open>setFormat(index, length, format)\<close>
  calls of its first \<open>fuel\<close> rounds, \<open>m\<close> being the result of the last \<open>indexIn\<close>. The loop
  need not end (an expression that matches the empty text is found at the same index again
  and again), so the calls are listed up to any number of rounds.
\<close>

type_synonym qregexp = "string \<Rightarrow> int \<Rightarrow> int \<times> int"

fun rule_spans :: "nat \<Rightarrow> qregexp \<Rightarrow> string \<Rightarrow> int \<times> int \<Rightarrow> (int \<times> int) list" where
  "rule_spans 0 expression txt m = []"
| "rule_spans (Suc fuel) expression txt m =
     (if 0 \<le> fst m
      then (fst m, snd m) # rule_spans fuel expression txt (expression txt (fst m + snd m))
      else [])"

definition highlightBlock ::
  "nat \<Rightarrow> (qregexp \<times> 'f) list \<Rightarrow> string \<Rightarrow> (int \<times> int \<times> 'f) list"
where
  "highlightBlock fuel highlighting_rules txt =
     concat (map (\<lambda>rule. map (\<lambda>span. (fst span, snd span, snd rule))
                            (rule_spans fuel (fst rule) txt (fst rule txt 0)))
                 highlighting_rules)"

text \<open>
  What the Qt documentation promises of \<open>indexIn\<close> from an offset inside the text: no
  match, or a match that starts at or after the offset and ends inside the text.
\<close>

definition qregexp_contract :: "qregexp \<Rightarrow> string \<Rightarrow> bool" where
  "qregexp_contract expression txt =
     (\<forall>off. 0 \<le> off \<and> off \<le> int (length txt) \<longrightarrow>
        fst (expression txt off) = - 1 \<or>
        (off \<le> fst (expression txt off) \<and> 0 \<le> snd (expression txt off) \<and>
         fst (expression txt off) + snd (expression txt off) \<le> int (length txt)))"

section \<open>Facts about the string operations\<close>


lemma split_nl_not_Nil: "split_on d s \<noteq> []"
  by (induction s) (auto split: list.splits)

lemma split_nl_no_NL: "l \<in> set (split_nl s) \<Longrightarrow> NL \<notin> set l"
proof (induction s arbitrary: l)
  case Nil
  then show ?case by simp
next
  case (Cons c cs)
  obtain h t where ht: "split_nl cs = h # t"
    using split_nl_not_Nil [of NL cs] by (cases "split_nl cs") auto
  from Cons.IH [of h] ht have h: "NL \<notin> set h" by simp
  from Cons.IH ht have t: "\<And>x. x \<in> set t \<Longrightarrow> NL \<notin> set x" by simp
  from Cons.prems ht h t show ?case
    by (auto split: if_splits list.splits)
qed

lemma split_nl_append_line:
  "NL \<notin> set l \<Longrightarrow> split_nl (l @ NL # s) = l # split_nl s"
  by (induction l) (auto split: list.splits)

lemma split_nl_line: "NL \<notin> set l \<Longrightarrow> split_nl l = [l]"
  by (induction l) (auto split: list.splits)

lemma split_join_nl:
  "ls \<noteq> [] \<Longrightarrow> (\<And>l. l \<in> set ls \<Longrightarrow> NL \<notin> set l) \<Longrightarrow> split_nl (join_nl ls) = ls"
proof (induction ls rule: join_nl.induct)
  case 1
  then show ?case by simp
next
  case (2 l)
  then show ?case by (simp add: split_nl_line)
next
  case (3 l m ls)
  then show ?case by (simp add: split_nl_append_line)
qed

lemma lstrip_spaces: "s = [] \<or> \<not> is_space (hd s) \<Longrightarrow> lstrip (spaces n @ s) = s"
proof -
  assume a: "s = [] \<or> \<not> is_space (hd s)"
  have sp: "is_space (CHR '' '')" by (simp add: is_space_def)
  have "dropWhile is_space (replicate k (CHR '' '') @ s) = s" for k
    using a sp by (induction k) (auto simp: dropWhile_eq_self_iff)
  then show ?thesis by (simp add: lstrip_def spaces_def)
qed

lemma lstrip_head: "lstrip s = [] \<or> \<not> is_space (hd (lstrip s))"
  unfolding lstrip_def using hd_dropWhile [of is_space s] by blast

lemma lstrip_no_NL: "NL \<notin> set l \<Longrightarrow> NL \<notin> set (lstrip l)"
  unfolding lstrip_def using set_dropWhileD by fastforce

lemma strip_Nil_iff: "strip s = [] \<longleftrightarrow> (\<forall>c \<in> set s. is_space c)"
proof
  assume "strip s = []"
  then have "\<forall>c \<in> set (lstrip s). is_space c"
    by (simp add: strip_def rstrip_def)
  moreover have "s = takeWhile is_space s @ lstrip s"
    by (simp add: lstrip_def)
  ultimately show "\<forall>c \<in> set s. is_space c"
    by (metis UnE set_append set_takeWhileD)
next
  assume "\<forall>c \<in> set s. is_space c"
  then have "lstrip s = []"
    by (simp add: lstrip_def)
  then show "strip s = []"
    by (simp add: strip_def rstrip_def)
qed


section \<open>The re-levellers refine their specification\<close>

lemma python_line_eq:
  "python_line st l =
     (if lstrip l = [] then st\<lparr>formatted_lines := formatted_lines st @ [[]]\<rparr>
      else
        \<lparr>formatted_lines = formatted_lines st @
           [spaces ((if py_dedent (lstrip l) then max 0 (indent_level st - 1)
                     else indent_level st) * 4) @ lstrip l],
         indent_level =
           py_after (lstrip l)
             (if py_dedent (lstrip l) then max 0 (indent_level st - 1) else indent_level st)\<rparr>)"
  by (simp add: python_line_def Let_def startswith_any_def py_dedent_def py_after_def)

lemma javascript_line_eq:
  "javascript_line st l =
     (if lstrip l = [] then st\<lparr>formatted_lines := formatted_lines st @ [[]]\<rparr>
      else
        \<lparr>formatted_lines = formatted_lines st @
           [spaces ((if js_dedent (lstrip l) then max 0 (indent_level st - 1)
                     else indent_level st) * 2) @ lstrip l],
         indent_level =
           js_after (lstrip l)
             (if js_dedent (lstrip l) then max 0 (indent_level st - 1) else indent_level st)\<rparr>)"
  by (simp add: javascript_line_def Let_def startswith_any_def endswith_any_def
      js_dedent_def js_after_def)

lemma python_fold:
  "formatted_lines (foldl python_line st ls) =
     formatted_lines st @ relevel 4 py_dedent py_after (indent_level st) ls"
proof (induction ls arbitrary: st)
  case Nil
  show ?case by simp
next
  case (Cons l ls)
  have "formatted_lines (foldl python_line st (l # ls)) =
        formatted_lines (python_line st l) @
          relevel 4 py_dedent py_after (indent_level (python_line st l)) ls"
    by (simp only: foldl_Cons Cons.IH)
  also have "\<dots> = formatted_lines st @ relevel 4 py_dedent py_after (indent_level st) (l # ls)"
    by (simp add: python_line_eq)
  finally show ?case .
qed

lemma javascript_fold:
  "formatted_lines (foldl javascript_line st ls) =
     formatted_lines st @ relevel 2 js_dedent js_after (indent_level st) ls"
proof (induction ls arbitrary: st)
  case Nil
  show ?case by simp
next
  case (Cons l ls)
  have "formatted_lines (foldl javascript_line st (l # ls)) =
        formatted_lines (javascript_line st l) @
          relevel 2 js_dedent js_after (indent_level (javascript_line st l)) ls"
    by (simp only: foldl_Cons Cons.IH)
  also have "\<dots> = formatted_lines st @ relevel 2 js_dedent js_after (indent_level st) (l # ls)"
    by (simp add: javascript_line_eq)
  finally show ?case .
qed

lemma format_python_relevel:
  "strip content \<noteq> [] \<Longrightarrow>
   format_python content =
     (Some (join_nl (relevel 4 py_dedent py_after 0 (split_nl content))), None)"
  by (simp add: format_python_def python_fold)

lemma format_javascript_relevel:
  "strip content \<noteq> [] \<Longrightarrow>
   format_javascript content =
     (Some (join_nl (relevel 2 js_dedent js_after 0 (split_nl content))), None)"
  by (simp add: format_javascript_def javascript_fold)

subsection \<open>What re-levelling keeps\<close>

lemma length_relevel: "length (relevel u d a lvl ls) = length ls"
  by (induction ls arbitrary: lvl) auto

lemma lstrip_Nil: "lstrip [] = []"
  by (simp add: lstrip_def)

lemma lstrip_relevel_line: "lstrip (spaces n @ lstrip l) = lstrip l"
  using lstrip_spaces [OF lstrip_head] .

lemma relevel_nth:
  "i < length ls \<Longrightarrow>
   (lstrip (ls ! i) = [] \<and> relevel u d a lvl ls ! i = []) \<or>
   (lstrip (ls ! i) \<noteq> [] \<and> (\<exists>k. relevel u d a lvl ls ! i = spaces k @ lstrip (ls ! i)))"
proof (induction ls arbitrary: lvl i)
  case Nil
  then show ?case by simp
next
  case (Cons l ls)
  show ?case
  proof (cases i)
    case 0
    then show ?thesis by auto
  next
    case (Suc j)
    with Cons.prems have "j < length ls" by simp
    from Cons.IH [OF this] Suc show ?thesis by (auto simp: Let_def)
  qed
qed

lemma map_lstrip_relevel: "map lstrip (relevel u d a lvl ls) = map lstrip ls"
  by (induction ls arbitrary: lvl) (auto simp: lstrip_Nil lstrip_relevel_line)

lemma relevel_cong:
  "map lstrip ls = map lstrip ls' \<Longrightarrow> relevel u d a lvl ls = relevel u d a lvl ls'"
proof (induction ls arbitrary: lvl ls')
  case Nil
  then show ?case by simp
next
  case (Cons l ls)
  then obtain l' ms where ls': "ls' = l' # ms" and l: "lstrip l = lstrip l'"
    and ms: "map lstrip ls = map lstrip ms"
    by (cases ls') auto
  show ?case
    unfolding ls' using Cons.IH [OF ms] l by simp
qed

lemma relevel_idem:
  "relevel u d a lvl (relevel u d a lvl' ls) = relevel u d a lvl ls"
  by (rule relevel_cong) (rule map_lstrip_relevel)

lemma spaces_no_NL: "NL \<notin> set (spaces n)"
  by (simp add: spaces_def)

lemma relevel_no_NL:
  "(\<And>l. l \<in> set ls \<Longrightarrow> NL \<notin> set l) \<Longrightarrow> o' \<in> set (relevel u d a lvl ls) \<Longrightarrow> NL \<notin> set o'"
proof (induction ls arbitrary: lvl)
  case Nil
  then show ?case by simp
next
  case (Cons l ls)
  have l: "NL \<notin> set (lstrip l)"
    using Cons.prems(1) [of l] lstrip_no_NL by simp
  have rest: "\<And>x. x \<in> set ls \<Longrightarrow> NL \<notin> set x"
    using Cons.prems(1) by simp
  from Cons.prems(2) Cons.IH [OF rest] l show ?case
    by (auto simp: spaces_no_NL split: if_splits)
qed

lemma relevel_not_Nil: "ls \<noteq> [] \<Longrightarrow> relevel u d a lvl ls \<noteq> []"
  by (cases ls) auto

lemma split_relevel:
  "split_nl (join_nl (relevel u d a lvl (split_nl content))) = relevel u d a lvl (split_nl content)"
proof (rule split_join_nl)
  show "relevel u d a lvl (split_nl content) \<noteq> []"
    by (rule relevel_not_Nil) (rule split_nl_not_Nil)
next
  fix l assume "l \<in> set (relevel u d a lvl (split_nl content))"
  then show "NL \<notin> set l"
    using relevel_no_NL [of "split_nl content"] split_nl_no_NL by blast
qed

subsection \<open>Content that is not blank stays so\<close>

lemma set_split_nl: "c \<in> set s \<Longrightarrow> c \<noteq> NL \<Longrightarrow> \<exists>l \<in> set (split_nl s). c \<in> set l"
proof (induction s)
  case Nil
  then show ?case by simp
next
  case (Cons x xs)
  obtain h t where ht: "split_nl xs = h # t"
    using split_nl_not_Nil [of NL xs] by (cases "split_nl xs") auto
  show ?case
  proof (cases "c = x")
    case True
    with Cons.prems ht show ?thesis by simp
  next
    case False
    with Cons.prems have "c \<in> set xs" by simp
    from Cons.IH [OF this Cons.prems(2)] ht show ?thesis by auto
  qed
qed

lemma set_join_nl: "l \<in> set ls \<Longrightarrow> set l \<subseteq> set (join_nl ls)"
  by (induction ls rule: join_nl.induct) auto

lemma lstrip_Nil_iff: "lstrip l = [] \<longleftrightarrow> (\<forall>c \<in> set l. is_space c)"
  by (simp add: lstrip_def)

lemma NL_space: "is_space NL"
  by (simp add: is_space_def)

lemma strip_line: "strip content \<noteq> [] \<Longrightarrow> \<exists>l \<in> set (split_nl content). lstrip l \<noteq> []"
proof -
  assume "strip content \<noteq> []"
  then obtain c where c: "c \<in> set content" "\<not> is_space c"
    by (auto simp: strip_Nil_iff)
  then have "c \<noteq> NL" using NL_space by auto
  from set_split_nl [OF c(1) this] c(2) show ?thesis
    by (auto simp: lstrip_Nil_iff)
qed

lemma relevel_keeps_content:
  "l \<in> set ls \<Longrightarrow> lstrip l \<noteq> [] \<Longrightarrow> \<exists>o' \<in> set (relevel u d a lvl ls). set (lstrip l) \<subseteq> set o'"
  by (induction ls arbitrary: lvl) auto

lemma strip_relevel:
  assumes "strip content \<noteq> []"
  shows "strip (join_nl (relevel u d a lvl (split_nl content))) \<noteq> []"
proof -
  from strip_line [OF assms] obtain l where l: "l \<in> set (split_nl content)" "lstrip l \<noteq> []"
    by blast
  from relevel_keeps_content [OF l] obtain o' where
    o': "o' \<in> set (relevel u d a lvl (split_nl content))" "set (lstrip l) \<subseteq> set o'"
    by blast
  from l(2) have "hd (lstrip l) \<in> set (lstrip l)" by simp
  moreover from l(2) lstrip_head [of l] have "\<not> is_space (hd (lstrip l))" by simp
  ultimately have "\<exists>c \<in> set (join_nl (relevel u d a lvl (split_nl content))). \<not> is_space c"
    using o' set_join_nl [OF o'(1)] by blast
  then show ?thesis by (simp add: strip_Nil_iff)
qed


section \<open>The secondary pass of the XML formatter refines its specification\<close>

lemma xml_line_declaration:
  "declaration_line l \<Longrightarrow>
   xml_line n st (i, l) =
     st\<lparr>result_lines := result_lines st @ l # (if i < n - 1 then [[]] else [])\<rparr>"
  by (simp add: xml_line_def declaration_line_def)

lemma xml_line_first:
  "\<not> declaration_line l \<Longrightarrow> prev_line st = None \<Longrightarrow>
   xml_line n st (i, l) =
     \<lparr>result_lines = result_lines st @ [l], prev_line = Some l, prev_indent = line_indent l\<rparr>"
  by (simp add: xml_line_def declaration_line_def line_indent_def Let_def)

lemma xml_line_next:
  assumes "\<not> declaration_line l" "prev_line st = Some p" "p \<noteq> []"
    "prev_indent st = line_indent p"
  shows "xml_line n st (i, l) =
     \<lparr>result_lines = result_lines st @ (if blank_before p l then [[], l] else [l]),
      prev_line = Some l, prev_indent = line_indent l\<rparr>"
  using assms
  by (auto simp: xml_line_def declaration_line_def line_indent_def Let_def blank_before_def
      opening_tag_def closing_tag_def comment_line_def)

lemma xml_line_spaced:
  assumes "xml_inv st" "l \<noteq> []"
  shows "xml_inv (xml_line n st (i, l))"
    and "result_lines (xml_line n st (i, l)) @
           spaced (prev_line (xml_line n st (i, l))) ls =
         result_lines st @
           (if declaration_line l then l # (if i < n - 1 then [[]] else []) @ spaced (prev_line st) ls
            else (case prev_line st of None \<Rightarrow> [l]
                  | Some p \<Rightarrow> if blank_before p l then [[], l] else [l]) @ spaced (Some l) ls)"
proof -
  show "xml_inv (xml_line n st (i, l))"
  proof (cases "declaration_line l")
    case True
    with assms show ?thesis
      by (simp add: xml_line_declaration xml_inv_def split: option.splits)
  next
    case False
    show ?thesis
    proof (cases "prev_line st")
      case None
      with False assms show ?thesis by (simp add: xml_line_first xml_inv_def)
    next
      case (Some p)
      with assms have "p \<noteq> []" "prev_indent st = line_indent p"
        by (simp_all add: xml_inv_def)
      from xml_line_next [OF False Some this] assms show ?thesis
        by (simp add: xml_inv_def)
    qed
  qed
next
  show "result_lines (xml_line n st (i, l)) @
           spaced (prev_line (xml_line n st (i, l))) ls =
         result_lines st @
           (if declaration_line l then l # (if i < n - 1 then [[]] else []) @ spaced (prev_line st) ls
            else (case prev_line st of None \<Rightarrow> [l]
                  | Some p \<Rightarrow> if blank_before p l then [[], l] else [l]) @ spaced (Some l) ls)"
  proof (cases "declaration_line l")
    case True
    then show ?thesis by (simp add: xml_line_declaration)
  next
    case False
    show ?thesis
    proof (cases "prev_line st")
      case None
      with False show ?thesis by (simp add: xml_line_first)
    next
      case (Some p)
      with assms have "p \<noteq> []" "prev_indent st = line_indent p"
        by (simp_all add: xml_inv_def)
      from xml_line_next [OF False Some this] Some False show ?thesis
        by simp
    qed
  qed
qed

lemma xml_fold:
  assumes "[] \<notin> set ls" "xml_inv st"
  shows "result_lines
           (foldl (xml_line (int (k + length ls))) st (zip (map int [k..<k + length ls]) ls))
         = result_lines st @ spaced (prev_line st) ls"
  using assms
proof (induction ls arbitrary: st k)
  case Nil
  show ?case by simp
next
  case (Cons l ls)
  from Cons.prems have l: "l \<noteq> []" and ls: "[] \<notin> set ls" by auto
  let ?n = "int (k + length (l # ls))"
  let ?st = "xml_line ?n st (int k, l)"
  have idx: "[k..<k + length (l # ls)] = k # [Suc k..<Suc k + length ls]"
    using upt_conv_Cons [of k "k + length (l # ls)"] by simp
  have n: "?n = int (Suc k + length ls)" by simp
  have "result_lines (foldl (xml_line ?n) st (zip (map int [k..<k + length (l # ls)]) (l # ls)))
        = result_lines (foldl (xml_line (int (Suc k + length ls))) ?st
            (zip (map int [Suc k..<Suc k + length ls]) ls))"
    by (simp only: idx n list.map zip_Cons_Cons foldl_Cons)
  also have "\<dots> = result_lines ?st @ spaced (prev_line ?st) ls"
    by (rule Cons.IH [OF ls xml_line_spaced(1) [OF Cons.prems(2) l]])
  also have "\<dots> = result_lines st @ spaced (prev_line st) (l # ls)"
    using xml_line_spaced(2) [OF Cons.prems(2) l, of ?n "int k" ls]
    by (cases ls) auto
  finally show ?case .
qed

lemma xml_spacing_spaced: "[] \<notin> set ls \<Longrightarrow> xml_spacing ls = spaced None ls"
  using xml_fold [of ls "\<lparr>result_lines = [], prev_line = None, prev_indent = - 1\<rparr>" 0]
  by (simp add: xml_spacing_def xml_inv_def)

lemma xml_cleaned_lines_not_empty: "[] \<notin> set (xml_cleaned_lines pretty)"
  by (simp add: xml_cleaned_lines_def)


section \<open>The declaration line of the XML formatter\<close>

lemma startswith_iff: "startswith s p \<longleftrightarrow> (\<exists>r. s = p @ r)"
proof
  assume "startswith s p"
  then have "s = p @ drop (length p) s"
    by (metis append_take_drop_id startswith_def)
  then show "\<exists>r. s = p @ r" ..
next
  assume "\<exists>r. s = p @ r"
  then show "startswith s p" by (auto simp: startswith_def)
qed

lemma startswith_not_Nil: "startswith s p \<Longrightarrow> p \<noteq> [] \<Longrightarrow> s \<noteq> []"
  by (auto simp: startswith_def)

lemma split_nl_prefix: "NL \<notin> set p \<Longrightarrow> \<exists>h t. split_nl (p @ r) = (p @ h) # t"
proof (induction p)
  case Nil
  then show ?case
    using split_nl_not_Nil [of NL r] by (cases "split_nl r") auto
next
  case (Cons c p)
  then obtain h t where "split_nl (p @ r) = (p @ h) # t" by auto
  with Cons.prems show ?case by auto
qed

lemma rstrip_append: "p \<noteq> [] \<Longrightarrow> \<not> is_space (last p) \<Longrightarrow> rstrip (p @ r) = p @ rstrip r"
proof -
  assume "p \<noteq> []" "\<not> is_space (last p)"
  then obtain ys y where "p = ys @ [y]" "\<not> is_space y"
    by (cases p rule: rev_cases) auto
  then show ?thesis
    by (simp add: rstrip_def dropWhile_append)
qed

lemma cleaned_declaration:
  assumes "startswith pretty ''<?xml''"
  shows "\<exists>x cs. xml_cleaned_lines pretty = (''<?xml'' @ x) # cs"
proof -
  from assms obtain r where r: "pretty = ''<?xml'' @ r"
    by (auto simp: startswith_iff)
  have "NL \<notin> set ''<?xml''" by simp
  from split_nl_prefix [OF this, of r] obtain h t where
    ht: "split_nl pretty = (''<?xml'' @ h) # t"
    unfolding r by blast
  have sp: "\<not> is_space (last ''<?xml'')" by (simp add: is_space_def)
  have "rstrip (''<?xml'' @ h) = ''<?xml'' @ rstrip h"
    by (rule rstrip_append [OF _ sp]) simp
  then have "xml_cleaned_lines pretty =
      (''<?xml'' @ rstrip h) # filter (\<lambda>l. l \<noteq> []) (map rstrip t)"
    by (simp add: xml_cleaned_lines_def ht)
  then show ?thesis by blast
qed

lemma join_nl_Cons: "\<exists>r. join_nl (a # xs) = a @ r"
  by (cases xs) auto

lemma hd_split_join: "NL \<notin> set d \<Longrightarrow> hd (split_nl (join_nl (d # r))) = d"
  by (cases r) (simp_all add: split_nl_line split_nl_append_line)

lemma formatted_declaration:
  assumes "startswith pretty ''<?xml''"
  shows "startswith (join_nl (xml_spacing (xml_cleaned_lines pretty))) ''<?xml''"
proof -
  from cleaned_declaration [OF assms] obtain x cs where
    c: "xml_cleaned_lines pretty = (''<?xml'' @ x) # cs" by blast
  have d: "declaration_line (''<?xml'' @ x)"
    by (simp add: declaration_line_def startswith_def)
  have "xml_spacing (xml_cleaned_lines pretty) = spaced None (xml_cleaned_lines pretty)"
    by (rule xml_spacing_spaced) (rule xml_cleaned_lines_not_empty)
  with c d obtain ys where "xml_spacing (xml_cleaned_lines pretty) = (''<?xml'' @ x) # ys"
    by simp
  moreover obtain r where "join_nl ((''<?xml'' @ x) # ys) = (''<?xml'' @ x) @ r"
    using join_nl_Cons by blast
  ultimately show ?thesis
    by (simp add: startswith_def)
qed

section \<open>The result pair of the formatters\<close>

lemma exactly_one_line_formatters:
  "exactly_one (format_python content)" "exactly_one (format_javascript content)"
  "exactly_one (format_css content)"
  by (simp_all add: exactly_one_def format_python_def format_javascript_def format_css_def
      Let_def)

lemma exactly_one_xml: "exactly_one (format_xml minidom content)"
  by (simp add: exactly_one_def format_xml_def Let_def split: sum.splits)

lemma exactly_one_json: "exactly_one (format_json json_loads json_dumps content)"
  by (simp add: exactly_one_def format_json_def split: sum.splits)


section \<open>Facts about language detection\<close>


lemma detect_language_lookup:
  "detect_language f =
     (case map_of language_map (lower (path_suffix f)) of None \<Rightarrow> ''generic'' | Some l \<Rightarrow> l)"
proof (cases "f = []")
  case True
  have "path_suffix [] = []" by code_simp
  moreover have "map_of language_map [] = None" by code_simp
  ultimately show ?thesis using True by (simp add: detect_language_def lower_def)
next
  case False
  then show ?thesis by (simp add: detect_language_def Let_def)
qed

lemma language_map_distinct: "distinct (map fst language_map)"
  by code_simp

lemma detect_content_json_example:
  "detect_file_type_from_content jl ''{\"a\": 1}'' = detect_json jl ''{\"a\": 1}''"
  by code_simp

lemma detect_json_example:
  "jl ''{\"a\": 1}'' = Inr v \<Longrightarrow> detect_json jl ''{\"a\": 1}'' = Some ''json''"
proof -
  assume a: "jl ''{\"a\": 1}'' = Inr v"
  have "startswith (strip ''{\"a\": 1}'') ''{''" by code_simp
  with a show ?thesis by (simp add: detect_json_def Let_def)
qed

section \<open>Facts about the find bar and the highlighter\<close>

lemma next_index_Some:
  "i < length ps \<Longrightarrow> cur < ps ! i \<Longrightarrow> (\<forall>j<i. ps ! j \<le> cur) \<Longrightarrow>
   next_index ps cur k = Some (k + i)"
proof (induction ps arbitrary: i k)
  case Nil
  then show ?case by simp
next
  case (Cons p ps)
  show ?case
  proof (cases i)
    case 0
    with Cons.prems show ?thesis by simp
  next
    case (Suc i')
    from Cons.prems(3) Suc have p: "p \<le> cur" by auto
    from Cons.prems Suc have "i' < length ps" "cur < ps ! i'" "\<forall>j<i'. ps ! j \<le> cur"
      by auto
    from Cons.IH [OF this, of "Suc k"] p Suc show ?thesis by simp
  qed
qed

lemma next_index_None: "(\<forall>p \<in> set ps. p \<le> cur) \<Longrightarrow> next_index ps cur k = None"
  by (induction ps arbitrary: k) auto

lemma find_next_at:
  assumes "find_text fb \<noteq> []" "match_positions fb \<noteq> []"
    and "total_matches fb = length (match_positions fb)"
    and "cur = (if cursor_anchor fb \<noteq> cursor_position fb
                then min (cursor_anchor fb) (cursor_position fb) else cursor_position fb)"
    and "idx = (case next_index (match_positions fb) cur 0 of None \<Rightarrow> 0 | Some i \<Rightarrow> i)"
    and "idx < length (match_positions fb)"
    and "match_positions fb ! idx + length (find_text fb) \<le> length (document fb)"
  shows "cursor_anchor (find_next fb) = match_positions fb ! idx \<and>
         cursor_position (find_next fb) = match_positions fb ! idx + length (find_text fb) \<and>
         current_match_index (find_next fb) = idx + 1 \<and>
         find_label (find_next fb) = Find_count (idx + 1) (total_matches fb)"
proof -
  define fb1 where
    "fb1 = (if find_text fb \<noteq> search_text fb then fb\<lparr>current_match_index := 0\<rparr> else fb)"
  have same: "match_positions fb1 = match_positions fb" "total_matches fb1 = total_matches fb"
    "cursor_anchor fb1 = cursor_anchor fb" "cursor_position fb1 = cursor_position fb"
    "document fb1 = document fb"
    by (simp_all add: fb1_def)
  define fb3 where "fb3 = fb1\<lparr>current_match_index := idx + 1\<rparr>"
  define fb4 where
    "fb4 = setPosition (match_positions fb ! idx + length (find_text fb)) True
             (setPosition (match_positions fb ! idx) False fb3)"
  have fb4: "cursor_anchor fb4 = match_positions fb ! idx"
    "cursor_position fb4 = match_positions fb ! idx + length (find_text fb)"
    "current_match_index fb4 = idx + 1" "total_matches fb4 = total_matches fb"
    using assms(7) by (simp_all add: fb4_def fb3_def setPosition_def same)
  have cur: "(if cursor_anchor fb1 \<noteq> cursor_position fb1
              then min (cursor_anchor fb1) (cursor_position fb1) else cursor_position fb1) = cur"
    by (simp only: same assms(4))
  have idx: "(case next_index (match_positions fb1) cur 0 of None \<Rightarrow> 0 | Some i \<Rightarrow> i) = idx"
    by (simp only: same assms(5))
  have "find_next fb =
      fb4\<lparr>find_label := Find_count (current_match_index fb4) (total_matches fb4),
          status_bar := Found (current_match_index fb4) (total_matches fb4)\<rparr>"
    unfolding find_next_def Let_def fb1_def [symmetric]
    apply (simp only: assms(1) if_False)
    apply (simp only: same(1) assms(2) if_False)
    apply (simp only: cur idx)
    using assms(2,3,6)
    apply (simp add: same fb4_def fb3_def assms(5) [symmetric])
    done
  with fb4 show ?thesis by simp
qed

lemma find_next_none:
  assumes "find_text fb \<noteq> []" "match_positions fb = []"
    "finditer (find_text fb) (document fb) 0 = []"
  shows "find_label (find_next fb) = Find_zero \<and> status_bar (find_next fb) = Text_not_found \<and>
         total_matches (find_next fb) = 0 \<and>
         cursor_anchor (find_next fb) = cursor_anchor fb \<and>
         cursor_position (find_next fb) = cursor_position fb"
proof -
  define fb1 where
    "fb1 = (if find_text fb \<noteq> search_text fb then fb\<lparr>current_match_index := 0\<rparr> else fb)"
  have same: "match_positions fb1 = []" "cursor_anchor fb1 = cursor_anchor fb"
    "cursor_position fb1 = cursor_position fb" "document fb1 = document fb"
    using assms(2) by (simp_all add: fb1_def)
  define fb2 where "fb2 = count_matches (fb1\<lparr>search_text := find_text fb\<rparr>)"
  have fb2: "total_matches fb2 = 0" "cursor_anchor fb2 = cursor_anchor fb"
    "cursor_position fb2 = cursor_position fb"
    using assms(3) by (simp_all add: fb2_def count_matches_def Let_def same)
  have "find_next fb = fb2\<lparr>find_label := Find_zero, status_bar := Text_not_found\<rparr>"
    using assms(1) fb2(1)
    unfolding find_next_def Let_def fb1_def [symmetric]
    by (simp add: same fb2_def [symmetric])
  with fb2 show ?thesis by simp
qed

lemma ci_startswith_length: "ci_startswith s q \<Longrightarrow> length q \<le> length s"
proof -
  assume "ci_startswith s q"
  then have "length (lower (take (length q) s)) = length (lower q)"
    by (simp add: ci_startswith_def)
  then show ?thesis by (simp add: lower_def)
qed

lemma finditer_in_range:
  "q \<noteq> [] \<Longrightarrow> p \<in> set (finditer q s off) \<Longrightarrow> off \<le> p \<and> p + length q \<le> off + length s"
proof (induction q s off rule: finditer.induct)
  case (1 q off)
  then show ?case by simp
next
  case (2 q c cs off)
  show ?case
  proof (cases "ci_startswith (c # cs) q")
    case True
    from ci_startswith_length [OF True] have len: "length q \<le> Suc (length cs)" by simp
    from "2.prems" True have
      "p = off \<or> p \<in> set (finditer q (drop (length q - 1) cs) (off + max 1 (length q)))"
      by simp
    then show ?thesis
    proof
      assume "p = off"
      with len show ?thesis by simp
    next
      assume "p \<in> set (finditer q (drop (length q - 1) cs) (off + max 1 (length q)))"
      from "2.IH"(1) [OF True "2.prems"(1) this] len "2.prems"(1) show ?thesis
        by (cases q) auto
    qed
  next
    case False
    with "2.prems" have "p \<in> set (finditer q cs (off + 1))" by simp
    from "2.IH"(2) [OF False "2.prems"(1) this] show ?thesis by simp
  qed
qed

lemma count_matches_in_range:
  assumes "search_text fb \<noteq> []" "p \<in> set (match_positions (count_matches fb))"
  shows "p + length (search_text fb) \<le> length (document fb)"
proof (cases "document fb = []")
  case True
  with assms show ?thesis by (simp add: count_matches_def)
next
  case False
  with assms have "p \<in> set (finditer (search_text fb) (document fb) 0)"
    by (simp add: count_matches_def Let_def split: if_splits)
  from finditer_in_range [OF assms(1) this] show ?thesis by simp
qed

lemma rule_spans_bounds:
  assumes "qregexp_contract e txt"
    and "fst m = - 1 \<or> (0 \<le> fst m \<and> 0 \<le> snd m \<and> fst m + snd m \<le> int (length txt))"
    and "s \<in> set (rule_spans fuel e txt m)"
  shows "0 \<le> fst s \<and> 0 \<le> snd s \<and> fst s + snd s \<le> int (length txt)"
  using assms(2,3)
proof (induction fuel arbitrary: m)
  case 0
  then show ?case by simp
next
  case (Suc fuel)
  show ?case
  proof (cases "0 \<le> fst m")
    case False
    with Suc.prems show ?thesis by simp
  next
    case True
    with Suc.prems(1) have m: "0 \<le> fst m" "0 \<le> snd m" "fst m + snd m \<le> int (length txt)"
      by auto
    let ?m = "e txt (fst m + snd m)"
    from assms(1) m have next_ok:
      "fst ?m = - 1 \<or> (0 \<le> fst ?m \<and> 0 \<le> snd ?m \<and> fst ?m + snd ?m \<le> int (length txt))"
      unfolding qregexp_contract_def by (smt (verit))
    from Suc.prems(2) True have "s = m \<or> s \<in> set (rule_spans fuel e txt ?m)"
      by auto
    then show ?thesis
    proof
      assume "s = m"
      with m show ?thesis by simp
    next
      assume "s \<in> set (rule_spans fuel e txt ?m)"
      from Suc.IH [OF next_ok this] show ?thesis .
    qed
  qed
qed


section \<open>Formatting twice\<close>

text \<open>
  C1, as the specification states it, holds of all five formatters. Two of them break it.
  The CSS formatter: \<open>"a{}"\<close> formats to \<open>"a {\n\n}"\<close>, and that text formats again to
  another one, with a second blank before the brace. The XML formatter: for
  \<open><?xml version="1.0"?><a/>\<close>, whose declaration shares its line with the root element,
  the first line of the result is replaced by that whole line, so the result holds the
  root element twice, and formatting it again returns the parser's error.
\<close>

theorem C1_idempotence_counterexample:
  "format_css ''a{}'' = (Some ''a {\<newline>\<newline>}'', None) \<and>
   format_css ''a {\<newline>\<newline>}'' = (Some ''a  {\<newline>\<newline>}'', None) \<and>
   format_xml minidom_example ''<?xml version=\"1.0\"?><a/>'' =
     (Some ''<?xml version=\"1.0\"?><a/>\<newline>\<newline><a/>'', None) \<and>
   format_xml minidom_example ''<?xml version=\"1.0\"?><a/>\<newline>\<newline><a/>'' =
     (None, Some ''junk after document element: line 3, column 0'')"
  by code_simp

text \<open>
  C1, as amended: for the Python-like and the JS-like formatter, a text that the formatter
  returned is returned unchanged when it is formatted again; and so it is for the JSON
  formatter, given that \<open>json.loads\<close> reads back the value from a text that \<open>json.dumps\<close>
  wrote and accepts no blank text.
\<close>

theorem C1_idempotence:
  "(format_python x = (Some t, None) \<longrightarrow> format_python t = (Some t, None)) \<and>
   (format_javascript y = (Some u, None) \<longrightarrow> format_javascript u = (Some u, None)) \<and>
   ((\<forall>d s. json_dumps d = Inr s \<longrightarrow> json_loads s = Inr d) \<and>
    (\<forall>s d. strip s = [] \<longrightarrow> json_loads s \<noteq> Inr d) \<and>
    format_json json_loads json_dumps z = (Some w, None) \<longrightarrow>
      format_json json_loads json_dumps w = (Some w, None))"
proof -
  have twice:
    "format_python (join_nl (relevel 4 py_dedent py_after 0 (split_nl c))) =
       (Some (join_nl (relevel 4 py_dedent py_after 0 (split_nl c))), None) \<and>
     format_javascript (join_nl (relevel 2 js_dedent js_after 0 (split_nl c))) =
       (Some (join_nl (relevel 2 js_dedent js_after 0 (split_nl c))), None)"
    if "strip c \<noteq> []" for c
    using that
    by (simp add: format_python_relevel format_javascript_relevel strip_relevel
        split_relevel relevel_idem)
  have py: "format_python t = (Some t, None)" if "format_python x = (Some t, None)"
  proof -
    from that have x: "strip x \<noteq> []"
      by (auto simp: format_python_def split: if_splits)
    from that format_python_relevel [OF x]
    have "t = join_nl (relevel 4 py_dedent py_after 0 (split_nl x))" by simp
    with twice [OF x] show ?thesis by simp
  qed
  have js: "format_javascript u = (Some u, None)" if "format_javascript y = (Some u, None)"
  proof -
    from that have y: "strip y \<noteq> []"
      by (auto simp: format_javascript_def split: if_splits)
    from that format_javascript_relevel [OF y]
    have "u = join_nl (relevel 2 js_dedent js_after 0 (split_nl y))" by simp
    with twice [OF y] show ?thesis by simp
  qed
  have json: "format_json json_loads json_dumps w = (Some w, None)"
    if readback: "\<forall>d s. json_dumps d = Inr s \<longrightarrow> json_loads s = Inr d"
      and blank: "\<forall>s d. strip s = [] \<longrightarrow> json_loads s \<noteq> Inr d"
      and first: "format_json json_loads json_dumps z = (Some w, None)"
  proof -
    from first obtain d where d: "json_dumps d = Inr w"
      by (auto simp: format_json_def split: if_splits sum.splits)
    with readback have l: "json_loads w = Inr d" by blast
    with blank have "strip w \<noteq> []" by blast
    with l d show ?thesis by (simp add: format_json_def)
  qed
  from py js json show ?thesis by blast
qed

theorem C1_idempotence_witness:
  "format_python ''if x:\<newline>y'' = (Some ''if x:\<newline>    y'', None) \<and>
   format_python ''if x:\<newline>    y'' = (Some ''if x:\<newline>    y'', None) \<and>
   format_javascript ''f() {\<newline>x;\<newline>}'' = (Some ''f() {\<newline>  x;\<newline>}'', None) \<and>
   format_javascript ''f() {\<newline>  x;\<newline>}'' = (Some ''f() {\<newline>  x;\<newline>}'', None) \<and>
   format_json (\<lambda>s. if strip s = ''null'' then Inr () else Inl ''Expecting value'')
     (\<lambda>d. Inr ''null'') '' null '' = (Some ''null'', None) \<and>
   format_json (\<lambda>s. if strip s = ''null'' then Inr () else Inl ''Expecting value'')
     (\<lambda>d. Inr ''null'') ''null'' = (Some ''null'', None)"
proof -
  let ?loads = "\<lambda>s. if strip s = ''null'' then Inr () else (Inl ''Expecting value'' :: string + unit)"
  let ?dumps = "\<lambda>d::unit. (Inr ''null'' :: string + string)"
  have py: "format_python ''if x:\<newline>y'' = (Some ''if x:\<newline>    y'', None)"
    by code_simp
  have js: "format_javascript ''f() {\<newline>x;\<newline>}'' = (Some ''f() {\<newline>  x;\<newline>}'', None)"
    by code_simp
  have null: "strip ''null'' = ''null''" "strip '' null '' = ''null''"
    by code_simp+
  have readback: "\<forall>d s. ?dumps d = Inr s \<longrightarrow> ?loads s = Inr d"
    using null(1) by auto
  have blank: "\<forall>s d. strip s = [] \<longrightarrow> ?loads s \<noteq> Inr d"
    by simp
  have first: "format_json ?loads ?dumps '' null '' = (Some ''null'', None)"
    using null(2) by (simp add: format_json_def)
  from C1_idempotence [of "''if x:\<newline>y''" "''if x:\<newline>    y''"
      "''f() {\<newline>x;\<newline>}''" "''f() {\<newline>  x;\<newline>}''" ?dumps ?loads "'' null ''" "''null''"]
    py js readback blank first
  show ?thesis by blast
qed


section \<open>What the two re-levellers change\<close>

text \<open>
  C10: on content that is not blank, \<open>format_python\<close> and \<open>format_javascript\<close> succeed;
  the result has as many lines as the content; each line of the result, left-trimmed, is
  the line of the content at that place, left-trimmed; each is that trimmed text behind a
  run of spaces; and a line of the content that is empty or blank gives the empty line.
\<close>

theorem C10_only_leading_whitespace_changes:
  assumes "strip content \<noteq> []"
  shows
    "(\<exists>t. format_python content = (Some t, None) \<and>
          length (split_nl t) = length (split_nl content) \<and>
          (\<forall>i < length (split_nl content).
             lstrip (split_nl t ! i) = lstrip (split_nl content ! i) \<and>
             (\<exists>k. split_nl t ! i = spaces k @ lstrip (split_nl content ! i)) \<and>
             (lstrip (split_nl content ! i) = [] \<longrightarrow> split_nl t ! i = []))) \<and>
     (\<exists>t. format_javascript content = (Some t, None) \<and>
          length (split_nl t) = length (split_nl content) \<and>
          (\<forall>i < length (split_nl content).
             lstrip (split_nl t ! i) = lstrip (split_nl content ! i) \<and>
             (\<exists>k. split_nl t ! i = spaces k @ lstrip (split_nl content ! i)) \<and>
             (lstrip (split_nl content ! i) = [] \<longrightarrow> split_nl t ! i = [])))"
proof -
  have lines:
    "length (split_nl (join_nl (relevel u d a 0 (split_nl content)))) = length (split_nl content) \<and>
     (\<forall>i < length (split_nl content).
        lstrip (split_nl (join_nl (relevel u d a 0 (split_nl content))) ! i)
          = lstrip (split_nl content ! i) \<and>
        (\<exists>k. split_nl (join_nl (relevel u d a 0 (split_nl content))) ! i
                = spaces k @ lstrip (split_nl content ! i)) \<and>
        (lstrip (split_nl content ! i) = [] \<longrightarrow>
           split_nl (join_nl (relevel u d a 0 (split_nl content))) ! i = []))"
    for u d a
  proof (intro conjI allI impI)
    show "length (split_nl (join_nl (relevel u d a 0 (split_nl content))))
            = length (split_nl content)"
      by (simp add: split_relevel length_relevel)
  next
    fix i assume i: "i < length (split_nl content)"
    have "map lstrip (relevel u d a 0 (split_nl content)) ! i = map lstrip (split_nl content) ! i"
      by (simp only: map_lstrip_relevel)
    with i show "lstrip (split_nl (join_nl (relevel u d a 0 (split_nl content))) ! i)
                   = lstrip (split_nl content ! i)"
      by (simp add: split_relevel length_relevel)
  next
    fix i assume i: "i < length (split_nl content)"
    from relevel_nth [OF i, of u d a 0]
    show "\<exists>k. split_nl (join_nl (relevel u d a 0 (split_nl content))) ! i
                = spaces k @ lstrip (split_nl content ! i)"
      by (auto simp: split_relevel spaces_def intro: exI [of _ 0])
  next
    fix i assume i: "i < length (split_nl content)"
      and blank: "lstrip (split_nl content ! i) = []"
    from relevel_nth [OF i, of u d a 0] blank
    show "split_nl (join_nl (relevel u d a 0 (split_nl content))) ! i = []"
      by (simp add: split_relevel)
  qed
  show ?thesis
    using lines [of 4 py_dedent py_after] lines [of 2 js_dedent js_after]
    by (simp add: format_python_relevel [OF assms] format_javascript_relevel [OF assms])
qed

theorem C10_only_leading_whitespace_changes_witness:
  "strip '' if (x) {\<newline>\<newline>y;'' \<noteq> [] \<and>
   (\<exists>t. format_python '' if (x) {\<newline>\<newline>y;'' = (Some t, None) \<and>
        length (split_nl t) = length (split_nl '' if (x) {\<newline>\<newline>y;'')) \<and>
   (\<exists>t. format_javascript '' if (x) {\<newline>\<newline>y;'' = (Some t, None) \<and>
        length (split_nl t) = length (split_nl '' if (x) {\<newline>\<newline>y;''))"
proof -
  have blank: "strip '' if (x) {\<newline>\<newline>y;'' \<noteq> []"
    by code_simp
  from C10_only_leading_whitespace_changes [OF blank] blank show ?thesis
    by blast
qed


section \<open>Find next\<close>

text \<open>
  C2: in a find bar with a query \<open>q\<close> that is not empty, match positions \<open>ps\<close> that lie
  inside the document, and the cursor (the start of its selection, if any) at \<open>cur\<close>,
  \<open>find_next\<close> selects the first position of \<open>ps\<close> that is greater than \<open>cur\<close>, from
  that position to the end of the match, and shows its index counted from 1; if no
  position is greater than \<open>cur\<close> it selects the first position of \<open>ps\<close>; if there are no
  positions (and the document holds no occurrence) it reports zero matches and leaves the
  cursor where it is. In \<open>abcabcabc\<close> the positions of \<open>abc\<close> are 0, 3 and 6, and from
  the cursor at 6 \<open>find_next\<close> selects the match at 0.
\<close>

theorem C2_find_next:
  assumes "find_text fb = q" "q \<noteq> []"
    and "match_positions fb = ps" "total_matches fb = length ps"
    and "cur = (if cursor_anchor fb \<noteq> cursor_position fb
                then min (cursor_anchor fb) (cursor_position fb) else cursor_position fb)"
    and "\<forall>p \<in> set ps. p + length q \<le> length (document fb)"
  shows
    "(\<forall>i. i < length ps \<and> cur < ps ! i \<and> (\<forall>j<i. ps ! j \<le> cur) \<longrightarrow>
        cursor_anchor (find_next fb) = ps ! i \<and>
        cursor_position (find_next fb) = ps ! i + length q \<and>
        current_match_index (find_next fb) = i + 1) \<and>
     (ps \<noteq> [] \<and> (\<forall>p \<in> set ps. p \<le> cur) \<longrightarrow>
        cursor_anchor (find_next fb) = ps ! 0 \<and>
        cursor_position (find_next fb) = ps ! 0 + length q \<and>
        current_match_index (find_next fb) = 1) \<and>
     (ps = [] \<and> finditer q (document fb) 0 = [] \<longrightarrow>
        find_label (find_next fb) = Find_zero \<and>
        status_bar (find_next fb) = Text_not_found \<and>
        total_matches (find_next fb) = 0 \<and>
        cursor_anchor (find_next fb) = cursor_anchor fb \<and>
        cursor_position (find_next fb) = cursor_position fb) \<and>
     finditer ''abc'' ''abcabcabc'' 0 = [0, 3, 6] \<and>
     find_next
       \<lparr>find_text = ''abc'', search_text = [], match_positions = [], total_matches = 0,
        current_match_index = 0, find_label = Find_prompt, document = ''abcabcabc'',
        cursor_anchor = 6, cursor_position = 6, status_bar = No_status\<rparr> =
       \<lparr>find_text = ''abc'', search_text = ''abc'', match_positions = [0, 3, 6],
        total_matches = 3, current_match_index = 1, find_label = Find_count 1 3,
        document = ''abcabcabc'', cursor_anchor = 0, cursor_position = 3,
        status_bar = Found 1 3\<rparr>"
proof -
  have after: "cursor_anchor (find_next fb) = ps ! i \<and>
        cursor_position (find_next fb) = ps ! i + length q \<and>
        current_match_index (find_next fb) = i + 1"
    if i: "i < length ps" "cur < ps ! i" "\<forall>j<i. ps ! j \<le> cur" for i
  proof -
    from i have ne: "match_positions fb \<noteq> []" using assms(3) by auto
    from next_index_Some [OF i, of 0]
    have idx: "i = (case next_index (match_positions fb) cur 0 of None \<Rightarrow> 0 | Some i \<Rightarrow> i)"
      by (simp add: assms(3))
    from i(1) assms(6) have range: "match_positions fb ! i + length (find_text fb) \<le> length (document fb)"
      by (simp add: assms(1,3))
    from find_next_at [OF _ ne _ assms(5) idx _ range] assms(1,2,3,4) i(1)
    show ?thesis by simp
  qed
  have wrap: "cursor_anchor (find_next fb) = ps ! 0 \<and>
        cursor_position (find_next fb) = ps ! 0 + length q \<and>
        current_match_index (find_next fb) = 1"
    if w: "ps \<noteq> []" "\<forall>p \<in> set ps. p \<le> cur"
  proof -
    from w have ne: "match_positions fb \<noteq> []" using assms(3) by auto
    from next_index_None [OF w(2), of 0]
    have idx: "0 = (case next_index (match_positions fb) cur 0 of None \<Rightarrow> 0 | Some i \<Rightarrow> i)"
      by (simp add: assms(3))
    from w(1) assms(6) have range: "match_positions fb ! 0 + length (find_text fb) \<le> length (document fb)"
      by (cases ps) (simp_all add: assms(1,3))
    from find_next_at [OF _ ne _ assms(5) idx _ range] assms(1,2,3,4) w(1)
    show ?thesis by simp
  qed
  have none: "find_label (find_next fb) = Find_zero \<and>
        status_bar (find_next fb) = Text_not_found \<and>
        total_matches (find_next fb) = 0 \<and>
        cursor_anchor (find_next fb) = cursor_anchor fb \<and>
        cursor_position (find_next fb) = cursor_position fb"
    if "ps = []" "finditer q (document fb) 0 = []"
    using find_next_none [of fb] that assms(1,2,3) by simp
  have index: "finditer ''abc'' ''abcabcabc'' 0 = [0, 3, 6]"
    by code_simp
  have example: "find_next
       \<lparr>find_text = ''abc'', search_text = [], match_positions = [], total_matches = 0,
        current_match_index = 0, find_label = Find_prompt, document = ''abcabcabc'',
        cursor_anchor = 6, cursor_position = 6, status_bar = No_status\<rparr> =
       \<lparr>find_text = ''abc'', search_text = ''abc'', match_positions = [0, 3, 6],
        total_matches = 3, current_match_index = 1, find_label = Find_count 1 3,
        document = ''abcabcabc'', cursor_anchor = 0, cursor_position = 3,
        status_bar = Found 1 3\<rparr>"
    by code_simp
  from after wrap none index example show ?thesis by blast
qed

theorem C2_find_next_witness:
  "cursor_anchor (find_next
       \<lparr>find_text = ''abc'', search_text = ''abc'', match_positions = [0, 3, 6],
        total_matches = 3, current_match_index = 1, find_label = Find_count 1 3,
        document = ''abcabcabc'', cursor_anchor = 0, cursor_position = 3,
        status_bar = No_status\<rparr>) = 3 \<and>
   cursor_position (find_next
       \<lparr>find_text = ''abc'', search_text = ''abc'', match_positions = [0, 3, 6],
        total_matches = 3, current_match_index = 1, find_label = Find_count 1 3,
        document = ''abcabcabc'', cursor_anchor = 0, cursor_position = 3,
        status_bar = No_status\<rparr>) = 6 \<and>
   current_match_index (find_next
       \<lparr>find_text = ''abc'', search_text = ''abc'', match_positions = [0, 3, 6],
        total_matches = 3, current_match_index = 1, find_label = Find_count 1 3,
        document = ''abcabcabc'', cursor_anchor = 0, cursor_position = 3,
        status_bar = No_status\<rparr>) = 2"
proof -
  let ?fb = "\<lparr>find_text = ''abc'', search_text = ''abc'', match_positions = [0, 3, 6],
        total_matches = 3, current_match_index = 1, find_label = Find_count 1 3,
        document = ''abcabcabc'', cursor_anchor = 0, cursor_position = 3,
        status_bar = No_status\<rparr>"
  have "(\<forall>i. i < length [0, 3, 6 :: nat] \<and> 0 < [0, 3, 6 :: nat] ! i \<and>
             (\<forall>j<i. [0, 3, 6 :: nat] ! j \<le> 0) \<longrightarrow>
        cursor_anchor (find_next ?fb) = [0, 3, 6] ! i \<and>
        cursor_position (find_next ?fb) = [0, 3, 6] ! i + length ''abc'' \<and>
        current_match_index (find_next ?fb) = i + 1)"
    using C2_find_next [where fb = ?fb and q = "''abc''" and ps = "[0, 3, 6]" and cur = 0]
    by simp
  then have "1 < length [0, 3, 6 :: nat] \<and> 0 < [0, 3, 6 :: nat] ! 1 \<and>
             (\<forall>j<1. [0, 3, 6 :: nat] ! j \<le> 0) \<longrightarrow>
        cursor_anchor (find_next ?fb) = [0, 3, 6] ! 1 \<and>
        cursor_position (find_next ?fb) = [0, 3, 6] ! 1 + length ''abc'' \<and>
        current_match_index (find_next ?fb) = 1 + 1"
    by (rule spec)
  then show ?thesis by simp
qed


section \<open>The secondary pass of the XML formatter\<close>





section \<open>The CSS scenario\<close>

text \<open>
  C4, as the specification states it: \<open>"a{color:red;}"\<close> formats to the three lines
  \<open>a {\<close>, \<open>  color: red;\<close> and \<open>}\<close>. The formatter returns another text: the scan copies
  \<open>color:red\<close> as it stands, and the line break written after \<open>;\<close> together with the one
  written before \<open>}\<close> leaves a line in between.
\<close>

theorem C4_css_scenario_counterexample:
  "format_css ''a{color:red;}'' \<noteq> (Some (join_nl [''a {'', ''  color: red;'', ''}'']), None)"
  by code_simp

text \<open>
  C4, as amended: \<open>"a{color:red;}"\<close> formats to the four lines \<open>a {\<close>, \<open>  color:red;\<close>,
  an empty line, and \<open>}\<close>.
\<close>

theorem C4_css_scenario:
  "format_css ''a{color:red;}'' = (Some (join_nl [''a {'', ''  color:red;'', [], ''}'']), None)"
  by code_simp


section \<open>Results and blank content\<close>

text \<open>
  C5: each of the five formatters returns a pair of which exactly one member is not
  \<open>None\<close>; on content that is empty or blank each returns no text and the error
  \<open>No content to format\<close>; and \<open>auto_format\<close> on an editor with such content shows the
  warning and leaves the text as it is.
\<close>

theorem C5_result_pair_and_blank_content:
  "exactly_one (format_xml minidom content) \<and>
   exactly_one (format_json json_loads json_dumps content) \<and>
   exactly_one (format_css content) \<and>
   exactly_one (format_python content) \<and>
   exactly_one (format_javascript content) \<and>
   (strip content = [] \<longrightarrow>
      format_xml minidom content = (None, Some ''No content to format'') \<and>
      format_json json_loads json_dumps content = (None, Some ''No content to format'') \<and>
      format_css content = (None, Some ''No content to format'') \<and>
      format_python content = (None, Some ''No content to format'') \<and>
      format_javascript content = (None, Some ''No content to format'') \<and>
      auto_format minidom json_loads json_dumps (ed\<lparr>plain_text := content\<rparr>) =
        ed\<lparr>plain_text := content, shown := shown ed @ [No_content_warning]\<rparr>)"
proof -
  have "auto_format minidom json_loads json_dumps (ed\<lparr>plain_text := content\<rparr>) =
        ed\<lparr>plain_text := content, shown := shown ed @ [No_content_warning]\<rparr>"
    if "strip content = []"
    using that by (simp add: auto_format_def)
  then show ?thesis
    using exactly_one_line_formatters [of content] exactly_one_xml [of minidom content]
      exactly_one_json [of json_loads json_dumps content]
    by (simp add: format_xml_def format_json_def format_css_def format_python_def
        format_javascript_def)
qed

theorem C5_result_pair_and_blank_content_witness:
  "strip '' \<newline> '' = [] \<and>
   format_xml (\<lambda>c. Inl ''no element found'') '' \<newline> '' = (None, Some ''No content to format'') \<and>
   format_json (\<lambda>c. Inl ''Expecting value'' :: string + unit) (\<lambda>d. Inr ''null'') '' \<newline> ''
     = (None, Some ''No content to format'') \<and>
   format_css '' \<newline> '' = (None, Some ''No content to format'') \<and>
   format_python '' \<newline> '' = (None, Some ''No content to format'') \<and>
   format_javascript '' \<newline> '' = (None, Some ''No content to format'') \<and>
   plain_text (auto_format (\<lambda>c. Inl ''no element found'')
       (\<lambda>c. Inl ''Expecting value'' :: string + unit) (\<lambda>d. Inr ''null'')
       \<lparr>plain_text = '' \<newline> '', current_file = None, shown = []\<rparr>) = '' \<newline> ''"
proof -
  have blank: "strip '' \<newline> '' = []"
    by code_simp
  from C5_result_pair_and_blank_content [of "\<lambda>c. Inl ''no element found''" "'' \<newline> ''"
      "\<lambda>c. Inl ''Expecting value'' :: string + unit" "\<lambda>d. Inr ''null''"
      "\<lparr>plain_text = '' \<newline> '', current_file = None, shown = []\<rparr>"] blank
  show ?thesis by simp
qed


section \<open>The declaration line is kept\<close>

text \<open>
  C6: if the content, trimmed, starts with \<open><?xml\<close> and the parser returns a pretty-printed
  text (which begins with the parser's own declaration \<open><?xml\<close>), then \<open>format_xml\<close>
  succeeds and the first line of its result is the first line of the trimmed content.
\<close>

theorem C6_xml_declaration_preserved:
  assumes "startswith (strip content) ''<?xml''"
    and "minidom content = Inr pretty"
    and "startswith pretty ''<?xml''"
  shows "\<exists>t. format_xml minidom content = (Some t, None) \<and>
             hd (split_nl t) = hd (split_nl (strip content))"
proof -
  let ?formatted = "join_nl (xml_spacing (xml_cleaned_lines pretty))"
  let ?decl = "hd (split_nl (strip content))"
  from assms(1) have ne: "strip content \<noteq> []"
    by (rule startswith_not_Nil) simp
  have f: "startswith ?formatted ''<?xml''"
    by (rule formatted_declaration [OF assms(3)])
  have res: "format_xml minidom content =
      (Some (join_nl ((split_nl ?formatted)[0 := ?decl])), None)"
    using ne assms(1,2) f by (simp add: format_xml_def Let_def)
  obtain h t where ht: "split_nl ?formatted = h # t"
    using split_nl_not_Nil [of NL ?formatted] by (cases "split_nl ?formatted") auto
  have "?decl \<in> set (split_nl (strip content))"
    using split_nl_not_Nil [of NL "strip content"] by simp
  then have "NL \<notin> set ?decl" by (rule split_nl_no_NL)
  then have "hd (split_nl (join_nl (?decl # t))) = ?decl"
    by (rule hd_split_join)
  with res ht show ?thesis by simp
qed

theorem C6_xml_declaration_preserved_witness:
  "startswith (strip ''<?xml version=\"1.0\" encoding=\"ISO-8859-1\"?>\<newline><a><b/></a>'') ''<?xml'' \<and>
   startswith ''<?xml version=\"1.0\" ?>\<newline><a>\<newline>  <b/>\<newline></a>\<newline>'' ''<?xml'' \<and>
   (\<exists>t. format_xml (\<lambda>c. Inr ''<?xml version=\"1.0\" ?>\<newline><a>\<newline>  <b/>\<newline></a>\<newline>'')
          ''<?xml version=\"1.0\" encoding=\"ISO-8859-1\"?>\<newline><a><b/></a>'' = (Some t, None) \<and>
        hd (split_nl t) = ''<?xml version=\"1.0\" encoding=\"ISO-8859-1\"?>'')"
proof -
  have a: "startswith (strip ''<?xml version=\"1.0\" encoding=\"ISO-8859-1\"?>\<newline><a><b/></a>'') ''<?xml''"
    by code_simp
  have b: "startswith ''<?xml version=\"1.0\" ?>\<newline><a>\<newline>  <b/>\<newline></a>\<newline>'' ''<?xml''"
    by code_simp
  have c: "hd (split_nl (strip ''<?xml version=\"1.0\" encoding=\"ISO-8859-1\"?>\<newline><a><b/></a>''))
           = ''<?xml version=\"1.0\" encoding=\"ISO-8859-1\"?>''"
    by code_simp
  from C6_xml_declaration_preserved [of _
      "\<lambda>c. Inr ''<?xml version=\"1.0\" ?>\<newline><a>\<newline>  <b/>\<newline></a>\<newline>''", OF a _ b]
  have "\<exists>t. format_xml (\<lambda>c. Inr ''<?xml version=\"1.0\" ?>\<newline><a>\<newline>  <b/>\<newline></a>\<newline>'')
          ''<?xml version=\"1.0\" encoding=\"ISO-8859-1\"?>\<newline><a><b/></a>'' = (Some t, None) \<and>
        hd (split_nl t) =
          hd (split_nl (strip ''<?xml version=\"1.0\" encoding=\"ISO-8859-1\"?>\<newline><a><b/></a>''))"
    by simp
  with a b c show ?thesis by simp
qed


section \<open>The Python-like formatter\<close>

text \<open>
  C7, as the specification states it, differs from \<open>format_python\<close> in two places. It
  raises the level if the trimmed line ends with \<open>:\<close>; the formatter trims the line on
  the left only, so in \<open>"if x: \ny"\<close>, where a blank follows the colon, the level stays
  and \<open>y\<close> is not indented. And it lets blank lines pass through unchanged; for a line of
  blanks the formatter appends the empty line in its place: in \<open>"if x:\n  \ny"\<close> the
  second line is two blanks, and the second line of the result is empty (nor is it the
  four blanks of the indent level reached there).
\<close>

theorem C7_python_lines_counterexample:
  "strip ''if x: '' = ''if x:'' \<and> endswith ''if x:'' '':'' \<and>
   format_python ''if x: \<newline>y'' = (Some (join_nl [''if x: '', ''y'']), None) \<and>
   split_nl ''if x:\<newline>  \<newline>y'' ! 1 = ''  '' \<and>
   format_python ''if x:\<newline>  \<newline>y'' = (Some (join_nl [''if x:'', [], ''    y'']), None)"
  by code_simp

text \<open>
  C7, as amended: on content that is not blank, \<open>format_python\<close> returns the lines of the
  content re-levelled from level 0 with 4 spaces per level, joined by newlines. That is:
  a line that is empty after the left trim is emitted as the empty line and leaves the
  level alone; any other line first lowers the level by one (not below 0) if its
  left-trimmed text starts with \<open>elif \<close>, \<open>else:\<close>, \<open>except\<close>, \<open>except \<close> or
  \<open>finally:\<close>, is emitted as its left-trimmed text (blanks at its end are kept) behind
  level times 4 spaces, and then raises the level by one if the left-trimmed text ends
  with \<open>:\<close>, or else lowers it by one (not below 0) if the left-trimmed text starts with
  \<open>return \<close>, \<open>break\<close>, \<open>continue\<close>, \<open>pass\<close> or \<open>raise \<close>.
\<close>

theorem C7_python_relevel:
  assumes "strip content \<noteq> []"
  shows "format_python content =
           (Some (join_nl (relevel 4 py_dedent py_after 0 (split_nl content))), None)"
  using assms by (rule format_python_relevel)

theorem C7_python_relevel_witness:
  "strip ''if x:\<newline>return 1\<newline>else:\<newline>  \<newline>pass'' \<noteq> [] \<and>
   format_python ''if x:\<newline>return 1\<newline>else:\<newline>  \<newline>pass'' =
     (Some (join_nl [''if x:'', ''    return 1'', ''else:'', [], ''    pass'']), None)"
proof -
  have blank: "strip ''if x:\<newline>return 1\<newline>else:\<newline>  \<newline>pass'' \<noteq> []"
    by code_simp
  have lines:
    "join_nl (relevel 4 py_dedent py_after 0
        (split_nl ''if x:\<newline>return 1\<newline>else:\<newline>  \<newline>pass'')) =
     join_nl [''if x:'', ''    return 1'', ''else:'', [], ''    pass'']"
    by code_simp
  from C7_python_relevel [OF blank] blank lines show ?thesis
    by simp
qed


section \<open>Language detection\<close>

text \<open>
  C8: \<open>detect_language\<close> looks the lower-cased suffix of the file name up in the table,
  so a suffix that is a key of the table in any letter case gives the language of the
  key, and a suffix that is none, or no suffix, or no file name, gives \<open>generic\<close>;
  \<open>foo.JSON\<close> is \<open>json\<close>. The content check returns \<open>json\<close> for \<open>{"a": 1}\<close> (which
  \<open>json.loads\<close> accepts), \<open>xml\<close> for \<open><a><b/></a>\<close>, and nothing for
  \<open>plain text, no markup\<close>.
\<close>

theorem C8_detection:
  "detect_language ''foo.JSON'' = ''json'' \<and>
   ((ext, language) \<in> set language_map \<and> lower (path_suffix filename) = ext \<longrightarrow>
      detect_language filename = language) \<and>
   (lower (path_suffix filename) \<notin> fst ` set language_map \<longrightarrow>
      detect_language filename = ''generic'') \<and>
   detect_language [] = ''generic'' \<and>
   (json_loads ''{\"a\": 1}'' = Inr v \<longrightarrow>
      detect_file_type_from_content json_loads ''{\"a\": 1}'' = Some ''json'') \<and>
   detect_file_type_from_content json_loads ''<a><b/></a>'' = Some ''xml'' \<and>
   detect_file_type_from_content json_loads ''plain text, no markup'' = None"
proof -
  have a: "detect_language ''foo.JSON'' = ''json''"
    by code_simp
  have b: "detect_language filename = language"
    if "(ext, language) \<in> set language_map" "lower (path_suffix filename) = ext"
  proof -
    from that(1) have "map_of language_map ext = Some language"
      using language_map_distinct by simp
    with that(2) show ?thesis by (simp add: detect_language_lookup)
  qed
  have c: "detect_language filename = ''generic''"
    if "lower (path_suffix filename) \<notin> fst ` set language_map"
  proof -
    from that have "map_of language_map (lower (path_suffix filename)) = None"
      by (simp add: map_of_eq_None_iff)
    then show ?thesis by (simp add: detect_language_lookup)
  qed
  have d: "detect_language [] = ''generic''"
    by (simp add: detect_language_def)
  have e: "detect_file_type_from_content json_loads ''{\"a\": 1}'' = Some ''json''"
    if "json_loads ''{\"a\": 1}'' = Inr v"
    using detect_json_example [where jl = json_loads, OF that] by (simp add: detect_content_json_example)
  have f: "detect_file_type_from_content json_loads ''<a><b/></a>'' = Some ''xml''"
    by code_simp
  have g: "detect_file_type_from_content json_loads ''plain text, no markup'' = None"
    by code_simp
  from a b c d e f g show ?thesis by blast
qed

theorem C8_detection_witness:
  "(''.py'', ''python'') \<in> set language_map \<and>
   lower (path_suffix ''src/Main.PY'') = ''.py'' \<and>
   detect_language ''src/Main.PY'' = ''python'' \<and>
   lower (path_suffix ''notes.txt'') \<notin> fst ` set language_map \<and>
   detect_language ''notes.txt'' = ''generic'' \<and>
   detect_file_type_from_content (\<lambda>c. Inr () :: string + unit) ''{\"a\": 1}'' = Some ''json''"
proof -
  have k: "(''.py'', ''python'') \<in> set language_map"
    by code_simp
  have s: "lower (path_suffix ''src/Main.PY'') = ''.py''"
    by code_simp
  have n: "lower (path_suffix ''notes.txt'') \<notin> fst ` set language_map"
    by code_simp
  from C8_detection [of "''.py''" "''python''" "''src/Main.PY''" "\<lambda>c. Inr () :: string + unit" "()"]
    k s
  have py: "detect_language ''src/Main.PY'' = ''python''" by simp
  from C8_detection [of "''.py''" "''python''" "''notes.txt''" "\<lambda>c. Inr () :: string + unit" "()"]
    n
  have gen: "detect_language ''notes.txt'' = ''generic''" by simp
  from C8_detection [of "''.py''" "''python''" "''notes.txt''" "\<lambda>c. Inr () :: string + unit" "()"]
  have js: "detect_file_type_from_content (\<lambda>c. Inr () :: string + unit) ''{\"a\": 1}'' = Some ''json''"
    by simp
  from k s n py gen js show ?thesis by simp
qed


section \<open>The spans of the highlighter\<close>

text \<open>
  C9: if every expression of the rule table keeps the contract of \<open>indexIn\<close> on the line,
  then every \<open>setFormat(index, length, format)\<close> that \<open>highlightBlock\<close> issues for the line,
  in any number of rounds of its loops, has an index that is not negative, a length that
  is not negative, and ends inside the line.
\<close>

theorem C9_highlight_spans_in_bounds:
  assumes "\<forall>rule \<in> set highlighting_rules. qregexp_contract (fst rule) txt"
  shows "\<forall>span \<in> set (highlightBlock fuel highlighting_rules txt).
           0 \<le> fst span \<and> 0 \<le> fst (snd span) \<and> fst span + fst (snd span) \<le> int (length txt)"
proof
  fix span assume "span \<in> set (highlightBlock fuel highlighting_rules txt)"
  then obtain rule s where rule: "rule \<in> set highlighting_rules"
    and s: "s \<in> set (rule_spans fuel (fst rule) txt (fst rule txt 0))"
    and span: "span = (fst s, snd s, snd rule)"
    by (auto simp: highlightBlock_def)
  from assms rule have c: "qregexp_contract (fst rule) txt" by blast
  then have first:
    "fst (fst rule txt 0) = - 1 \<or>
     (0 \<le> fst (fst rule txt 0) \<and> 0 \<le> snd (fst rule txt 0) \<and>
      fst (fst rule txt 0) + snd (fst rule txt 0) \<le> int (length txt))"
    unfolding qregexp_contract_def by (smt (verit) of_nat_0_le_iff)
  from rule_spans_bounds [OF c first s] span show
    "0 \<le> fst span \<and> 0 \<le> fst (snd span) \<and> fst span + fst (snd span) \<le> int (length txt)"
    by simp
qed

theorem C9_highlight_spans_in_bounds_witness:
  "qregexp_contract (\<lambda>t off. if off < int (length t) then (off, 1) else (- 1, - 1)) ''ab'' \<and>
   highlightBlock 5 [(\<lambda>t off. if off < int (length t) then (off, 1) else (- 1, - 1), True)] ''ab''
     = [(0, 1, True), (1, 1, True)] \<and>
   (0::int) + 1 \<le> int (length ''ab'') \<and> (1::int) + 1 \<le> int (length ''ab'')"
proof -
  let ?e = "\<lambda>(t::string) (off::int). if off < int (length t) then (off, 1::int) else (- 1, - 1)"
  have c: "qregexp_contract ?e ''ab''"
    by (simp add: qregexp_contract_def)
  then have rules: "\<forall>rule \<in> set [(?e, True)]. qregexp_contract (fst rule) ''ab''"
    by simp
  have run: "highlightBlock 5 [(?e, True)] ''ab'' = [(0, 1, True), (1, 1, True)]"
    by (simp add: highlightBlock_def eval_nat_numeral)
  from C9_highlight_spans_in_bounds [OF rules, of 5] c run show ?thesis
    by simp
qed


end
